theory Spec2Isabelle
  imports Main "HOL-Library.AList"
begin

section \<open>Python string primitives\<close>

text \<open>
  A Python \<open>str\<close> is modelled as a \<open>string\<close>; a \<open>char\<close> stands for the code point of
  the same number, so the model covers the texts whose code points lie below 256.
  The character tests below list the members of Python's classes in that range.
\<close>

definition LF :: char where
  "LF = CHR 0x0A"

definition CR :: char where
  "CR = CHR 0x0D"

definition py_isspace :: "char \<Rightarrow> bool" where
  \<comment> \<open>\<open>str.isspace\<close> on one character, which is also the class \<open>\s\<close> of \<open>re\<close> on \<open>str\<close> patterns\<close>
  "py_isspace c \<longleftrightarrow> c \<in> set [CHR 0x09, CHR 0x0A, CHR 0x0B, CHR 0x0C, CHR 0x0D,
     CHR 0x1C, CHR 0x1D, CHR 0x1E, CHR 0x1F, CHR 0x20, CHR 0x85, CHR 0xA0]"

definition py_isdigit_char :: "char \<Rightarrow> bool" where
  \<comment> \<open>the decimal digits, and the superscript digits U+00B2, U+00B3, U+00B9\<close>
  "py_isdigit_char c \<longleftrightarrow> c \<in> set (''0123456789'' @ [CHR 0xB2, CHR 0xB3, CHR 0xB9])"

definition isdigit :: "string \<Rightarrow> bool" where
  \<comment> \<open>\<open>str.isdigit\<close>: false on the empty string\<close>
  "isdigit s \<longleftrightarrow> s \<noteq> [] \<and> list_all py_isdigit_char s"

definition lstrip :: "string \<Rightarrow> string" where
  "lstrip s = dropWhile py_isspace s"

definition rstrip :: "string \<Rightarrow> string" where
  "rstrip s = rev (dropWhile py_isspace (rev s))"

definition strip :: "string \<Rightarrow> string" where
  \<comment> \<open>\<open>str.strip()\<close> with no argument\<close>
  "strip s = rstrip (lstrip s)"

definition remove_spaces :: "string \<Rightarrow> string" where
  \<comment> \<open>\<open>s.replace(" ", "")\<close>\<close>
  "remove_spaces s = filter (\<lambda>c. c \<noteq> CHR '' '') s"

definition startswith :: "string \<Rightarrow> string \<Rightarrow> bool" where
  \<comment> \<open>\<open>s.startswith(p)\<close>\<close>
  "startswith s p \<longleftrightarrow> take (length p) s = p"

definition endswith :: "string \<Rightarrow> string \<Rightarrow> bool" where
  \<comment> \<open>\<open>s.endswith(p)\<close>\<close>
  "endswith s p \<longleftrightarrow> length p \<le> length s \<and> drop (length s - length p) s = p"

fun py_in :: "string \<Rightarrow> string \<Rightarrow> bool" where
  \<comment> \<open>\<open>sub in s\<close>\<close>
  "py_in sub [] = (sub = [])"
| "py_in sub (x # xs) = (startswith (x # xs) sub \<or> py_in sub xs)"

fun split_on :: "char \<Rightarrow> string \<Rightarrow> string list" where
  \<comment> \<open>\<open>s.split(c)\<close> with a separator of one character: never the empty list\<close>
  "split_on c [] = [[]]"
| "split_on c (x # xs) =
     (if x = c then [] # split_on c xs
      else (case split_on c xs of
              [] \<Rightarrow> [[x]]
            | w # ws \<Rightarrow> (x # w) # ws))"

definition split_first :: "char \<Rightarrow> string \<Rightarrow> string list" where
  \<comment> \<open>\<open>s.split(c, 1)\<close>: at most one cut, at the first separator\<close>
  "split_first c s =
     (if c \<in> set s then [takeWhile (\<lambda>x. x \<noteq> c) s, tl (dropWhile (\<lambda>x. x \<noteq> c) s)]
      else [s])"

fun join :: "string \<Rightarrow> string list \<Rightarrow> string" where
  \<comment> \<open>\<open>sep.join(xs)\<close>\<close>
  "join sep [] = []"
| "join sep [x] = x"
| "join sep (x # y # ys) = x @ sep @ join sep (y # ys)"

fun py_replace :: "string \<Rightarrow> string \<Rightarrow> string \<Rightarrow> string" where
  \<comment> \<open>\<open>s.replace(old, new)\<close>: every occurrence, leftmost first, without overlap\<close>
  "py_replace old new [] = (if old = [] then new else [])"
| "py_replace old new (x # xs) =
     (if old = [] then new @ x # py_replace old new xs
      else if startswith (x # xs) old then new @ py_replace old new (drop (length old - 1) xs)
      else x # py_replace old new xs)"

definition line_boundary :: "char \<Rightarrow> bool" where
  \<comment> \<open>the line boundaries of \<open>str.splitlines\<close> below 256\<close>
  "line_boundary c \<longleftrightarrow> c \<in> set [CHR 0x0A, CHR 0x0B, CHR 0x0C, CHR 0x0D,
     CHR 0x1C, CHR 0x1D, CHR 0x1E, CHR 0x85]"

function splitlines :: "string \<Rightarrow> string list" where
  \<comment> \<open>\<open>s.splitlines()\<close>: boundaries dropped, CR LF one boundary, no empty last line\<close>
  "splitlines s =
     (if s = [] then []
      else (case dropWhile (\<lambda>c. \<not> line_boundary c) s of
              [] \<Rightarrow> [s]
            | b # r \<Rightarrow> takeWhile (\<lambda>c. \<not> line_boundary c) s #
                splitlines (if b = CR \<and> startswith r [LF] then tl r else r)))"
  by pat_completeness auto
termination
proof (relation "measure length")
  show "wf (measure length)" by simp
next
  fix s :: string and b r
  assume "s \<noteq> []" and d: "dropWhile (\<lambda>c. \<not> line_boundary c) s = b # r"
  have "length (dropWhile (\<lambda>c. \<not> line_boundary c) s) \<le> length s"
    by (rule length_dropWhile_le)
  with d have "length r < length s" by simp
  moreover have "length (tl r) \<le> length r" by simp
  ultimately show "(if b = CR \<and> startswith r [LF] then tl r else r, s) \<in> measure length"
    by auto
qed

declare splitlines.simps [simp del]

section \<open>The regular expressions of the source\<close>

text \<open>
  Python's \<open>re\<close> is a backtracking matcher. The patterns of the source use character
  classes, greedy and lazy repetition of one class, optional groups, capture groups and
  the anchors \<open>^\<close> and \<open>$\<close>. \<open>rmatch r (caps, s)\<close> lists every way \<open>r\<close> matches a prefix of \<open>s\<close>
  in the order the backtracking tries them, each with the captures and the text left;
  \<open>re_match\<close> takes the first, as \<open>re.match\<close> does.
\<close>

type_synonym captures = "nat \<rightharpoonup> string"

datatype re =
    Cls "char \<Rightarrow> bool"
  | Star "char \<Rightarrow> bool"
  | LazyStar "char \<Rightarrow> bool"
  | Seq re re
  | Opt re
  | Grp nat re
  | Eps
  | Eos

fun star_greedy :: "(char \<Rightarrow> bool) \<Rightarrow> captures \<Rightarrow> string \<Rightarrow> (captures \<times> string) list" where
  "star_greedy p c [] = [(c, [])]"
| "star_greedy p c (x # xs) =
     (if p x then star_greedy p c xs @ [(c, x # xs)] else [(c, x # xs)])"

fun star_lazy :: "(char \<Rightarrow> bool) \<Rightarrow> captures \<Rightarrow> string \<Rightarrow> (captures \<times> string) list" where
  "star_lazy p c [] = [(c, [])]"
| "star_lazy p c (x # xs) = (c, x # xs) # (if p x then star_lazy p c xs else [])"

fun rmatch :: "re \<Rightarrow> captures \<times> string \<Rightarrow> (captures \<times> string) list" where
  "rmatch (Cls p) (c, s) = (case s of [] \<Rightarrow> [] | x # xs \<Rightarrow> if p x then [(c, xs)] else [])"
| "rmatch (Star p) (c, s) = star_greedy p c s"
| "rmatch (LazyStar p) (c, s) = star_lazy p c s"
| "rmatch (Seq a b) cs = concat (map (rmatch b) (rmatch a cs))"
| "rmatch (Opt a) cs = rmatch a cs @ [cs]"
| "rmatch (Grp g a) (c, s) =
     map (\<lambda>(c', s'). (c'(g \<mapsto> take (length s - length s') s), s')) (rmatch a (c, s))"
| "rmatch Eps cs = [cs]"
| "rmatch Eos (c, s) = (if s = [] \<or> s = [LF] then [(c, s)] else [])"

definition re_match :: "re \<Rightarrow> string \<Rightarrow> captures option" where
  \<comment> \<open>\<open>re.match(pattern, s)\<close>: the first match at the start of \<open>s\<close>, or \<open>None\<close>\<close>
  "re_match r s = (case rmatch r (Map.empty, s) of [] \<Rightarrow> None | (c, _) # _ \<Rightarrow> Some c)"

definition seq :: "re list \<Rightarrow> re" where
  "seq rs = foldr Seq rs Eps"

definition Chr :: "char \<Rightarrow> re" where
  "Chr a = Cls (\<lambda>c. c = a)"

definition Lit :: "string \<Rightarrow> re" where
  "Lit s = seq (map Chr s)"

definition Plus :: "(char \<Rightarrow> bool) \<Rightarrow> re" where
  "Plus p = Seq (Cls p) (Star p)"

definition ident_start :: "char \<Rightarrow> bool" where
  \<comment> \<open>\<open>[a-zA-Z_]\<close>\<close>
  "ident_start c \<longleftrightarrow> c \<in> set ''abcdefghijklmnopqrstuvwxyzABCDEFGHIJKLMNOPQRSTUVWXYZ_''"

definition ident_char :: "char \<Rightarrow> bool" where
  \<comment> \<open>\<open>[a-zA-Z0-9_]\<close>\<close>
  "ident_char c \<longleftrightarrow> ident_start c \<or> c \<in> set ''0123456789''"

definition dotted_char :: "char \<Rightarrow> bool" where
  \<comment> \<open>\<open>[a-zA-Z0-9_\\.]\<close>: in the raw string the class holds a backslash and a dot\<close>
  "dotted_char c \<longleftrightarrow> ident_char c \<or> c = CHR 0x5C \<or> c = CHR ''.''"

definition type_char :: "char \<Rightarrow> bool" where
  \<comment> \<open>\<open>[a-zA-Z0-9_\[\], \.]\<close>\<close>
  "type_char c \<longleftrightarrow> ident_char c \<or> c \<in> set ''[], .''"

definition any_char :: "char \<Rightarrow> bool" where
  \<comment> \<open>\<open>.\<close> without DOTALL: every character but the line feed\<close>
  "any_char c \<longleftrightarrow> c \<noteq> LF"

definition ident_re :: re where
  \<comment> \<open>\<open>[a-zA-Z_][a-zA-Z0-9_]*\<close>\<close>
  "ident_re = Seq (Cls ident_start) (Star ident_char)"

definition generic_re :: re where
  \<comment> \<open>\<open>^([a-zA-Z_][a-zA-Z0-9_]*)\[(.*)\]$\<close>\<close>
  "generic_re = seq [Grp 1 ident_re, Chr CHR ''['', Grp 2 (Star any_char), Chr CHR '']'', Eos]"

definition outer_re :: re where
  \<comment> \<open>\<open>^([a-zA-Z_][a-zA-Z0-9_\\.]*)$\<close>\<close>
  "outer_re = seq [Grp 1 (Seq (Cls ident_start) (Star dotted_char)), Eos]"

section \<open>Lengths and captures\<close>

lemma length_strip_le: "length (strip s) \<le> length s"
proof -
  have "length (rstrip (lstrip s)) \<le> length (lstrip s)"
    unfolding rstrip_def using length_dropWhile_le [of py_isspace "rev (lstrip s)"] by simp
  moreover have "length (lstrip s) \<le> length s"
    unfolding lstrip_def by (rule length_dropWhile_le)
  ultimately show ?thesis unfolding strip_def by simp
qed

lemma length_remove_spaces_le: "length (remove_spaces s) \<le> length s"
  unfolding remove_spaces_def by (rule length_filter_le)

lemma split_on_not_Nil: "split_on c s \<noteq> []"
  by (induction s) (auto split: list.splits)

lemma sum_length_split_on: "sum_list (map length (split_on c s)) \<le> length s"
  by (induction s) (auto split: list.splits)

lemma sum_length_map_strip:
  "sum_list (map length (map strip xs)) \<le> sum_list (map length xs)"
proof (induction xs)
  case Nil
  show ?case by simp
next
  case (Cons x xs)
  with length_strip_le [of x] show ?case by simp
qed

lemma in_star_greedy:
  "(c', s') \<in> set (star_greedy p c s) \<longleftrightarrow> c' = c \<and> (\<exists>pre. s = pre @ s' \<and> list_all p pre)"
proof (induction s)
  case Nil
  show ?case by auto
next
  case (Cons x xs)
  show ?case
  proof (cases "p x")
    case True
    have "(\<exists>pre. x # xs = pre @ s' \<and> list_all p pre) \<longleftrightarrow>
          s' = x # xs \<or> (\<exists>pre. xs = pre @ s' \<and> list_all p pre)"
      using True by (auto simp: Cons_eq_append_conv)
    with True Cons show ?thesis by auto
  next
    case False
    have "(\<exists>pre. x # xs = pre @ s' \<and> list_all p pre) \<longleftrightarrow> s' = x # xs"
      using False by (auto simp: Cons_eq_append_conv)
    with False show ?thesis by auto
  qed
qed

lemma in_star_lazy:
  "(c', s') \<in> set (star_lazy p c s) \<longleftrightarrow> c' = c \<and> (\<exists>pre. s = pre @ s' \<and> list_all p pre)"
proof (induction s)
  case Nil
  show ?case by auto
next
  case (Cons x xs)
  show ?case
  proof (cases "p x")
    case True
    have "(\<exists>pre. x # xs = pre @ s' \<and> list_all p pre) \<longleftrightarrow>
          s' = x # xs \<or> (\<exists>pre. xs = pre @ s' \<and> list_all p pre)"
      using True by (auto simp: Cons_eq_append_conv)
    with True Cons show ?thesis by auto
  next
    case False
    have "(\<exists>pre. x # xs = pre @ s' \<and> list_all p pre) \<longleftrightarrow> s' = x # xs"
      using False by (auto simp: Cons_eq_append_conv)
    with False show ?thesis by auto
  qed
qed

lemma in_rmatch_Cls:
  "(c', s') \<in> set (rmatch (Cls p) (c, s)) \<longleftrightarrow> (\<exists>x. s = x # s' \<and> p x \<and> c' = c)"
  by (cases s) auto

lemma in_rmatch_Chr:
  "(c', s') \<in> set (rmatch (Chr a) (c, s)) \<longleftrightarrow> s = a # s' \<and> c' = c"
  unfolding Chr_def by (cases s) auto

lemma in_rmatch_Star:
  "(c', s') \<in> set (rmatch (Star p) (c, s)) \<longleftrightarrow> c' = c \<and> (\<exists>pre. s = pre @ s' \<and> list_all p pre)"
  by (simp add: in_star_greedy)

lemma in_rmatch_LazyStar:
  "(c', s') \<in> set (rmatch (LazyStar p) (c, s)) \<longleftrightarrow>
     c' = c \<and> (\<exists>pre. s = pre @ s' \<and> list_all p pre)"
  by (simp add: in_star_lazy)

lemma in_rmatch_Seq:
  "x \<in> set (rmatch (Seq a b) cs) \<longleftrightarrow> (\<exists>m \<in> set (rmatch a cs). x \<in> set (rmatch b m))"
  by auto

lemma in_rmatch_Opt: "x \<in> set (rmatch (Opt a) cs) \<longleftrightarrow> x \<in> set (rmatch a cs) \<or> x = cs"
  by auto

lemma in_rmatch_Grp:
  "(c', s') \<in> set (rmatch (Grp g a) (c, s)) \<longleftrightarrow>
     (\<exists>c0. (c0, s') \<in> set (rmatch a (c, s)) \<and> c' = c0(g \<mapsto> take (length s - length s') s))"
  by auto

lemma in_rmatch_Eps: "x \<in> set (rmatch Eps cs) \<longleftrightarrow> x = cs"
  by auto

lemma in_rmatch_Eos:
  "(c', s') \<in> set (rmatch Eos (c, s)) \<longleftrightarrow> c' = c \<and> s' = s \<and> (s = [] \<or> s = [LF])"
  by auto

lemmas in_rmatch = in_rmatch_Cls in_rmatch_Chr in_rmatch_Star in_rmatch_LazyStar in_rmatch_Seq
  in_rmatch_Opt in_rmatch_Grp in_rmatch_Eps in_rmatch_Eos

declare rmatch.simps [simp del]

lemma rmatch_suffix:
  "(c', s') \<in> set (rmatch r (c, s)) \<Longrightarrow> \<exists>pre. s = pre @ s'"
proof (induction r arbitrary: c s c' s')
  case (Seq a b)
  then obtain c1 s1 where 1: "(c1, s1) \<in> set (rmatch a (c, s))"
    and 2: "(c', s') \<in> set (rmatch b (c1, s1))"
    by (auto simp: in_rmatch_Seq)
  from Seq.IH(1) [OF 1] obtain p1 where "s = p1 @ s1" by blast
  moreover from Seq.IH(2) [OF 2] obtain p2 where "s1 = p2 @ s'" by blast
  ultimately have "s = (p1 @ p2) @ s'" by simp
  then show ?case by blast
next
  case (Opt a)
  then show ?case by (auto simp: in_rmatch_Opt)
next
  case (Grp g a)
  then show ?case by (auto simp: in_rmatch_Grp)
qed (auto simp: in_rmatch)

lemma re_match_SomeD:
  "re_match r s = Some m \<Longrightarrow> \<exists>s'. (m, s') \<in> set (rmatch r (Map.empty, s))"
  unfolding re_match_def by (auto split: list.splits)

lemma re_match_None_iff: "re_match r s = None \<longleftrightarrow> rmatch r (Map.empty, s) = []"
  unfolding re_match_def by (auto split: list.splits)

lemma generic_re_groups:
  assumes "re_match generic_re base = Some m"
  shows "\<exists>name args rest. m 1 = Some name \<and> m 2 = Some args \<and>
           base = name @ ''['' @ args @ '']'' @ rest \<and> (rest = [] \<or> rest = [LF]) \<and>
           name \<noteq> [] \<and> ident_start (hd name) \<and> list_all ident_char (tl name) \<and>
           list_all any_char args"
proof -
  from re_match_SomeD [OF assms] obtain s' where
    "(m, s') \<in> set (rmatch generic_re (Map.empty, base))" ..
  then obtain x p1 s1 p2 s2 where
    b: "base = x # p1 @ s1" and x: "ident_start x" and p1: "list_all ident_char p1"
    and s1: "s1 = CHR ''['' # p2 @ s2" and p2: "list_all any_char p2"
    and s2: "s2 = CHR '']'' # s'" and s': "s' = [] \<or> s' = [LF]"
    and m: "m = (Map.empty(1 \<mapsto> take (length base - length s1) base))
                  (2 \<mapsto> take (length (p2 @ s2) - length s2) (p2 @ s2))"
    unfolding generic_re_def seq_def ident_re_def
    by (fastforce simp: in_rmatch)
  have "m 1 = Some (x # p1)" "m 2 = Some p2"
    using m b by simp_all
  moreover have "base = (x # p1) @ ''['' @ p2 @ '']'' @ s'"
    using b s1 s2 by simp
  ultimately show ?thesis using x p1 p2 s' by fastforce
qed

section \<open>The type mapping engine\<close>

datatype error = IndexError | AttributeError | ValueError | RecursionError

datatype diagnostic =
    ParamMismatch string
  | ExpectedParams string
  | Unrecognized string

definition quoted :: "string \<Rightarrow> string" where
  "quoted s = [CHR 0x27] @ s @ [CHR 0x27]"

fun render :: "diagnostic \<Rightarrow> string" where
  \<comment> \<open>the line each diagnostic prints on the error stream\<close>
  "render (ParamMismatch name) = ''[!] Parameter count mismatch for '' @ quoted name"
| "render (ExpectedParams base) =
     ''[!] Expected parameters for '' @ quoted base @ '', but none provided''"
| "render (Unrecognized pytype) =
     ''[!] Unrecognized type '' @ quoted pytype @ '', defaulting to object''"

text \<open>
  A call returns a value together with the diagnostics it printed, in order, or the
  exception it raised.
\<close>

type_synonym 'a outcome = "error + 'a \<times> diagnostic list"

type_synonym registry = "string \<rightharpoonup> string \<times> string list"

definition TYPE_MAP :: "string \<rightharpoonup> string" where
  "TYPE_MAP = map_of
     [(''int'', ''int''), (''float'', ''float''), (''str'', ''str''), (''bool'', ''bint''),
      (''bytes'', ''bytes''), (''list'', ''list''), (''tuple'', ''tuple''), (''dict'', ''dict''),
      (''set'', ''set''), (''None'', ''void''), (''Any'', ''object'')]"

function unwrap_literal :: "string \<Rightarrow> string" where
  "unwrap_literal typ =
     (if startswith typ ''Literal['' \<and> endswith typ '']''
      then unwrap_literal (butlast (drop 8 typ)) else typ)"
  by pat_completeness auto
termination
proof (relation "measure length")
  show "wf (measure length)" by simp
next
  fix t :: string
  assume "startswith t ''Literal['' \<and> endswith t '']''"
  then have "t \<noteq> []" by (auto simp: startswith_def)
  then show "(butlast (drop 8 t), t) \<in> measure length" by (cases t) auto
qed

declare unwrap_literal.simps [simp del]

lemma length_unwrap_literal_le: "length (unwrap_literal s) \<le> length s"
proof (induction s rule: unwrap_literal.induct)
  case (1 t)
  show ?case
  proof (cases "startswith t ''Literal['' \<and> endswith t '']''")
    case True
    with 1 have "length (unwrap_literal (butlast (drop 8 t))) \<le> length (butlast (drop 8 t))"
      by simp
    also have "\<dots> \<le> length t" by simp
    finally show ?thesis using True by (subst unwrap_literal.simps) auto
  next
    case False
    then show ?thesis by (subst unwrap_literal.simps) auto
  qed
qed

definition truthy :: "string option \<Rightarrow> string option" where
  \<comment> \<open>the value that passes \<open>if v:\<close>: a string that is not empty\<close>
  "truthy v = (case v of None \<Rightarrow> None | Some s \<Rightarrow> if s \<noteq> [] then Some s else None)"

definition py_or :: "string option \<Rightarrow> string \<Rightarrow> string" where
  \<comment> \<open>\<open>a or b\<close>, where \<open>a\<close> is a string or \<open>None\<close> and \<open>b\<close> a string: \<open>b\<close> unless \<open>a\<close> is truthy\<close>
  "py_or a b = (case truthy a of None \<Rightarrow> b | Some v \<Rightarrow> v)"

definition bare_lookup :: "registry \<Rightarrow> string \<Rightarrow> string \<Rightarrow> string \<times> diagnostic list" where
  \<comment> \<open>\<open>map_type\<close> from the test \<open>base in CUSTOM_TYPE_MAP\<close> to its last \<open>return\<close>\<close>
  "bare_lookup ctm pytype base =
     (case ctm base of
        Some (template, param_keys) \<Rightarrow>
          (template, if param_keys \<noteq> [] then [ExpectedParams base] else [])
      | None \<Rightarrow>
          (let outer = re_match outer_re (unwrap_literal base);
               key = (case outer of None \<Rightarrow> None | Some m \<Rightarrow> m 1);
               res = py_or (case key of None \<Rightarrow> None | Some k \<Rightarrow> TYPE_MAP k)
                       (py_or key ''object'')
           in (res, if res = ''object'' then [Unrecognized pytype] else [])))"

fun collect :: "'a outcome list \<Rightarrow> 'a list outcome" where
  \<comment> \<open>the results of calls made one after the other: the first exception ends them\<close>
  "collect [] = Inr ([], [])"
| "collect (r # rs) =
     (case r of
        Inl e \<Rightarrow> Inl e
      | Inr (x, d) \<Rightarrow>
          (case collect rs of Inl e \<Rightarrow> Inl e | Inr (xs, ds) \<Rightarrow> Inr (x # xs, d @ ds)))"

definition keyed :: "string \<Rightarrow> string outcome \<Rightarrow> (string \<times> string) outcome" where
  "keyed key r = (case r of Inl e \<Rightarrow> Inl e | Inr (v, d) \<Rightarrow> Inr ((key, v), d))"

definition dict_of :: "(string \<times> string) list \<Rightarrow> (string \<times> string) list" where
  \<comment> \<open>the dict built by \<open>substitutions[key] = val\<close> in turn: a key set again keeps its place\<close>
  "dict_of kvs = foldl (\<lambda>d (k, v). AList.update k v d) [] kvs"

definition substitute :: "string \<Rightarrow> (string \<times> string) list \<Rightarrow> string" where
  \<comment> \<open>\<open>template.replace("{" + key + "}", val)\<close> for every item in turn\<close>
  "substitute template items = fold (\<lambda>(key, val) t. py_replace (''{'' @ key @ ''}'') val t) items template"

lemma generic_args_shorter:
  assumes "re_match generic_re (remove_spaces (strip pytype)) = Some m" and "m 2 = Some args_str"
  shows "sum_list (map length (map strip (split_on c args_str))) < length pytype"
proof -
  from generic_re_groups [OF assms(1)] assms(2)
  have "length args_str < length (remove_spaces (strip pytype))" by auto
  also have "\<dots> \<le> length (strip pytype)" by (rule length_remove_spaces_le)
  also have "\<dots> \<le> length pytype" by (rule length_strip_le)
  finally have "length args_str < length pytype" .
  moreover have "sum_list (map length (map strip (split_on c args_str))) \<le> length args_str"
    using sum_length_map_strip [of "split_on c args_str"] sum_length_split_on [of c args_str]
    by simp
  ultimately show ?thesis by simp
qed

text \<open>
  \<open>map_type\<close> and its nested \<open>try_custom_template\<close> call each other. The registry
  \<open>CUSTOM_TYPE_MAP\<close> and the flag \<open>gen_allow\<close> are module globals of the source and
  are parameters here; what the source prints on \<open>sys.stderr\<close> is returned as the list
  of diagnostics, in the order of printing. The branch
  \<open>elif False and typename == "list"\<close> of the source can never be taken and has no
  counterpart below. \<open>args[0]\<close> and \<open>match.groups()\<close> are the places where the source
  could raise; they are the \<open>IndexError\<close> and \<open>AttributeError\<close> branches.
\<close>

function map_type :: "registry \<Rightarrow> bool \<Rightarrow> string \<Rightarrow> string outcome"
  and try_custom_template :: "registry \<Rightarrow> bool \<Rightarrow> string \<Rightarrow> string list \<Rightarrow> string option outcome"
where
  "map_type ctm gen_allow pytype =
     (let base = remove_spaces (strip pytype) in
      if isdigit base then Inr (base, [])
      else
        (case re_match generic_re base of
           None \<Rightarrow> Inr (bare_lookup ctm pytype base)
         | Some m \<Rightarrow>
             (case (m 1, m 2) of
                (Some typename, Some args_str) \<Rightarrow>
                  (let args = map strip (split_on CHR '','' args_str) in
                   case try_custom_template ctm gen_allow typename args of
                     Inl e \<Rightarrow> Inl e
                   | Inr (substituted, d1) \<Rightarrow>
                       (case truthy substituted of
                          Some text \<Rightarrow> Inr (text, d1)
                        | None \<Rightarrow>
                            if typename = ''tuple'' then
                              (case collect (map (map_type ctm gen_allow) args) of
                                 Inl e \<Rightarrow> Inl e
                               | Inr (rs, d2) \<Rightarrow> Inr (''('' @ join '', '' rs @ '')'', d1 @ d2))
                            else if typename \<in> set [''tuple'', ''set'', ''list'', ''dict''] \<or> gen_allow
                            then
                              (case args of
                                 [] \<Rightarrow> Inl IndexError
                               | a # _ \<Rightarrow>
                                   (case map_type ctm gen_allow (unwrap_literal a) of
                                      Inl e \<Rightarrow> Inl e
                                    | Inr (r, d2) \<Rightarrow> Inr (typename @ ''['' @ r @ '']'', d1 @ d2)))
                            else
                              (case bare_lookup ctm pytype base of (r, d2) \<Rightarrow> Inr (r, d1 @ d2))))
              | _ \<Rightarrow> Inl AttributeError)))"
| "try_custom_template ctm gen_allow name args =
     (case ctm name of
        None \<Rightarrow> Inr (None, [])
      | Some (template, param_keys) \<Rightarrow>
          if length param_keys \<noteq> length args then Inr (None, [ParamMismatch name])
          else
            (case collect (map (\<lambda>(key, val). keyed key (map_type ctm gen_allow (unwrap_literal (strip val))))
                            (zip param_keys args)) of
               Inl e \<Rightarrow> Inl e
             | Inr (substitutions, d) \<Rightarrow> Inr (Some (substitute template (dict_of substitutions)), d)))"
  by pat_completeness auto
termination
proof (relation "measure (\<lambda>x. case x of
          Inl (ctm, gen_allow, pytype) \<Rightarrow> 2 * length pytype
        | Inr (ctm, gen_allow, name, args) \<Rightarrow> 2 * sum_list (map length args) + 1)",
    goal_cases)
  case 1
  show ?case by simp
next
  case (2 ctm gen_allow pytype base m g1 g2 typename args_str args)
  from generic_args_shorter [of pytype m args_str "CHR '',''"] 2
  show ?case by simp
next
  case (3 ctm gen_allow pytype base m g1 g2 typename args_str args b substituted d1 a)
  from 3 have "length a \<le> sum_list (map length (map strip (split_on CHR '','' args_str)))"
    using member_le_sum_list [of "length a" "map length args"] by auto
  with generic_args_shorter [of pytype m args_str "CHR '',''"] 3
  show ?case by simp
next
  case (4 ctm gen_allow pytype base m g1 g2 typename args_str args b substituted d1 a as)
  from 4 have "length a \<le> sum_list (map length (map strip (split_on CHR '','' args_str)))"
    using member_le_sum_list [of "length a" "map length args"] by auto
  with generic_args_shorter [of pytype m args_str "CHR '',''"] 4 length_unwrap_literal_le [of a]
  show ?case by simp
next
  case (5 ctm gen_allow name args entry template param_keys kv key val)
  from 5 have "val \<in> set args" by (auto dest: set_zip_rightD)
  then have "length val \<le> sum_list (map length args)"
    using member_le_sum_list [of "length val" "map length args"] by auto
  with length_unwrap_literal_le [of "strip val"] length_strip_le [of val]
  show ?case by simp
qed

declare map_type.simps [simp del] try_custom_template.simps [simp del]

lemma collect_total:
  "(\<And>x. x \<in> set xs \<Longrightarrow> \<exists>v d. f x = Inr (v, d)) \<Longrightarrow> \<exists>vs ds. collect (map f xs) = Inr (vs, ds)"
proof (induction xs)
  case Nil
  show ?case by simp
next
  case (Cons x xs)
  from Cons.prems [of x] obtain v d where "f x = Inr (v, d)" by auto
  moreover from Cons.IH Cons.prems obtain vs ds where "collect (map f xs) = Inr (vs, ds)"
    by auto
  ultimately show ?case by simp
qed

lemma map_type_returns:
  "\<exists>r d. map_type ctm gen_allow pytype = Inr (r, d)"
  "\<exists>r d. try_custom_template ctm gen_allow name args = Inr (r, d)"
proof (induction ctm gen_allow pytype and ctm gen_allow name args
    rule: map_type_try_custom_template.induct)
  case (1 ctm gen_allow pytype)
  define base where "base = remove_spaces (strip pytype)"
  show ?case
  proof (cases "isdigit base")
    case True
    then show ?thesis by (subst map_type.simps) (simp add: base_def)
  next
    case nd: False
    show ?thesis
    proof (cases "re_match generic_re base")
      case None
      with nd show ?thesis by (subst map_type.simps) (simp add: base_def)
    next
      case m: (Some m)
      from generic_re_groups [OF m] obtain typename args_str
        where g1: "m 1 = Some typename" and g2: "m 2 = Some args_str" by blast
      define args where "args = map strip (split_on CHR '','' args_str)"
      have ne: "args \<noteq> []" by (simp add: args_def split_on_not_Nil)
      have pr: "(m 1, m 2) = (m 1, m 2)" by simp
      from "1.IH"(1) [OF base_def nd m pr g1 g2 args_def]
      obtain substituted d1 where
        t: "try_custom_template ctm gen_allow typename args = Inr (substituted, d1)"
        by auto
      have unfold: "map_type ctm gen_allow pytype =
          (case truthy substituted of
             Some text \<Rightarrow> Inr (text, d1)
           | None \<Rightarrow>
               if typename = ''tuple'' then
                 (case collect (map (map_type ctm gen_allow) args) of
                    Inl e \<Rightarrow> Inl e
                  | Inr (rs, d2) \<Rightarrow> Inr (''('' @ join '', '' rs @ '')'', d1 @ d2))
               else if typename \<in> set [''tuple'', ''set'', ''list'', ''dict''] \<or> gen_allow
               then
                 (case args of
                    [] \<Rightarrow> Inl IndexError
                  | a # _ \<Rightarrow>
                      (case map_type ctm gen_allow (unwrap_literal a) of
                         Inl e \<Rightarrow> Inl e
                       | Inr (r, d2) \<Rightarrow> Inr (typename @ ''['' @ r @ '']'', d1 @ d2)))
               else
                 (case bare_lookup ctm pytype base of (r, d2) \<Rightarrow> Inr (r, d1 @ d2)))"
        using nd m g1 g2 t
        by (subst map_type.simps) (simp add: base_def [symmetric] args_def [symmetric] Let_def)
      show ?thesis
      proof (cases "truthy substituted")
        case (Some sub)
        then show ?thesis by (simp add: unfold)
      next
        case None
        note IH2 = "1.IH"(2) [OF base_def nd m pr g1 g2 args_def t refl]
        note IH3 = "1.IH"(3) [OF base_def nd m pr g1 g2 args_def t refl]
        show ?thesis
        proof (cases "typename = ''tuple''")
          case True
          have "\<exists>vs ds. collect (map (map_type ctm gen_allow) args) = Inr (vs, ds)"
            by (rule collect_total) (rule IH2 [OF None True])
          with None True show ?thesis by (auto simp: unfold)
        next
          case nt: False
          show ?thesis
          proof (cases "typename \<in> set [''tuple'', ''set'', ''list'', ''dict''] \<or> gen_allow")
            case True
            from ne obtain a as where a: "args = a # as" by (cases args) auto
            from IH3 [OF None nt True a]
            obtain r d2 where "map_type ctm gen_allow (unwrap_literal a) = Inr (r, d2)" by auto
            with None nt True a show ?thesis by (simp add: unfold)
          next
            case False
            show ?thesis unfolding unfold using None nt False by (simp split: prod.splits)
          qed
        qed
      qed
    qed
  qed
next
  case (2 ctm gen_allow name args)
  show ?case
  proof (cases "ctm name")
    case None
    then show ?thesis by (subst try_custom_template.simps) simp
  next
    case (Some entry)
    obtain template param_keys where e: "entry = (template, param_keys)" by (cases entry)
    show ?thesis
    proof (cases "length param_keys \<noteq> length args")
      case True
      with Some e show ?thesis by (subst try_custom_template.simps) simp
    next
      case False
      have "\<exists>vs ds. collect (map (\<lambda>(key, val). keyed key (map_type ctm gen_allow (unwrap_literal (strip val))))
                            (zip param_keys args)) = Inr (vs, ds)"
      proof (rule collect_total)
        fix kv assume kv: "kv \<in> set (zip param_keys args)"
        obtain key val where p: "kv = (key, val)" by (cases kv)
        from "2.IH" [OF Some e [symmetric] False kv p [symmetric]]
        obtain r d where "map_type ctm gen_allow (unwrap_literal (strip val)) = Inr (r, d)" by auto
        then show "\<exists>v d. (case kv of (key, val) \<Rightarrow> keyed key (map_type ctm gen_allow (unwrap_literal (strip val)))) = Inr (v, d)"
          by (simp add: p keyed_def)
      qed
      with Some e False show ?thesis by (subst try_custom_template.simps) auto
    qed
  qed
qed


lemma map_type_bare:
  assumes "\<not> isdigit (remove_spaces (strip pytype))"
    and "re_match generic_re (remove_spaces (strip pytype)) = None"
  shows "map_type ctm gen_allow pytype = Inr (bare_lookup ctm pytype (remove_spaces (strip pytype)))"
  using assms by (subst map_type.simps) simp

subsection \<open>The engine on a bounded call stack\<close>

text \<open>
  The interpreter gives every call a frame and raises \<open>RecursionError\<close> when a call would
  need more frames than its recursion limit leaves. \<open>map_type_limited depth\<close> is
  \<open>map_type\<close> run with \<open>depth\<close> frames left: the call itself takes one, and what it
  calls runs with the rest. The frames counted are those that stay open while a nested
  call of \<open>map_type\<close> runs: \<open>map_type\<close> itself, \<open>try_custom_template\<close>, and the
  generator expression of the tuple branch (\<open>tuple_items_limited\<close>). The calls that
  return before the next nested call is made (\<open>unwrap_literal\<close>, \<open>re.match\<close>, the string
  methods) need a fixed number of frames above their caller and are not counted: the
  limit of the model is the interpreter's limit less that number and less the frames
  of the callers of \<open>map_type\<close>.
\<close>

fun map_type_limited :: "nat \<Rightarrow> registry \<Rightarrow> bool \<Rightarrow> string \<Rightarrow> string outcome"
  and try_custom_template_limited ::
    "nat \<Rightarrow> registry \<Rightarrow> bool \<Rightarrow> string \<Rightarrow> string list \<Rightarrow> string option outcome"
  and tuple_items_limited :: "nat \<Rightarrow> registry \<Rightarrow> bool \<Rightarrow> string list \<Rightarrow> string list outcome"
where
  "map_type_limited 0 ctm gen_allow pytype = Inl RecursionError"
| "map_type_limited (Suc depth) ctm gen_allow pytype =
     (let base = remove_spaces (strip pytype) in
      if isdigit base then Inr (base, [])
      else
        (case re_match generic_re base of
           None \<Rightarrow> Inr (bare_lookup ctm pytype base)
         | Some m \<Rightarrow>
             (case (m 1, m 2) of
                (Some typename, Some args_str) \<Rightarrow>
                  (let args = map strip (split_on CHR '','' args_str) in
                   case try_custom_template_limited depth ctm gen_allow typename args of
                     Inl e \<Rightarrow> Inl e
                   | Inr (substituted, d1) \<Rightarrow>
                       (case truthy substituted of
                          Some text \<Rightarrow> Inr (text, d1)
                        | None \<Rightarrow>
                            if typename = ''tuple'' then
                              (case tuple_items_limited depth ctm gen_allow args of
                                 Inl e \<Rightarrow> Inl e
                               | Inr (rs, d2) \<Rightarrow> Inr (''('' @ join '', '' rs @ '')'', d1 @ d2))
                            else if typename \<in> set [''tuple'', ''set'', ''list'', ''dict''] \<or> gen_allow
                            then
                              (case args of
                                 [] \<Rightarrow> Inl IndexError
                               | a # _ \<Rightarrow>
                                   (case map_type_limited depth ctm gen_allow (unwrap_literal a) of
                                      Inl e \<Rightarrow> Inl e
                                    | Inr (r, d2) \<Rightarrow> Inr (typename @ ''['' @ r @ '']'', d1 @ d2)))
                            else
                              (case bare_lookup ctm pytype base of (r, d2) \<Rightarrow> Inr (r, d1 @ d2))))
              | _ \<Rightarrow> Inl AttributeError)))"
| "try_custom_template_limited 0 ctm gen_allow name args = Inl RecursionError"
| "try_custom_template_limited (Suc depth) ctm gen_allow name args =
     (case ctm name of
        None \<Rightarrow> Inr (None, [])
      | Some (template, param_keys) \<Rightarrow>
          if length param_keys \<noteq> length args then Inr (None, [ParamMismatch name])
          else
            (case collect (map (\<lambda>(key, val).
                     keyed key (map_type_limited depth ctm gen_allow (unwrap_literal (strip val))))
                            (zip param_keys args)) of
               Inl e \<Rightarrow> Inl e
             | Inr (substitutions, d) \<Rightarrow> Inr (Some (substitute template (dict_of substitutions)), d)))"
| "tuple_items_limited 0 ctm gen_allow args = Inl RecursionError"
| "tuple_items_limited (Suc depth) ctm gen_allow args =
     collect (map (map_type_limited depth ctm gen_allow) args)"

lemma collect_limited:
  assumes "\<And>x. x \<in> set xs \<Longrightarrow> f x = Inl RecursionError \<or> f x = g x"
  shows "collect (map f xs) = Inl RecursionError \<or> collect (map f xs) = collect (map g xs)"
  using assms
proof (induction xs)
  case Nil
  show ?case by simp
next
  case (Cons x xs)
  from Cons.prems [of x] have x: "f x = Inl RecursionError \<or> f x = g x" by simp
  from Cons.IH Cons.prems
  have xs: "collect (map f xs) = Inl RecursionError \<or> collect (map f xs) = collect (map g xs)"
    by simp
  from x xs show ?case by (auto split: sum.splits prod.splits)
qed

lemma collect_cong_on:
  assumes "\<And>x. x \<in> set xs \<Longrightarrow> f x = g x"
  shows "collect (map f xs) = collect (map g xs)"
proof -
  from assms have "map f xs = map g xs" by simp
  then show ?thesis by (rule arg_cong)
qed

section \<open>The declaration rewriters\<close>

definition not_hash_newline :: "char \<Rightarrow> bool" where
  \<comment> \<open>\<open>[^#\n]\<close>\<close>
  "not_hash_newline c \<longleftrightarrow> c \<noteq> CHR ''#'' \<and> c \<noteq> LF"

definition var_decl_re :: re where
  \<comment> \<open>the pattern of \<open>convert_variable_declaration\<close>; groups: 1 the indent, 2 \<open>var\<close>,
      3 \<open>type\<close>, 4 \<open>assign\<close>, 5 \<open>comment\<close>\<close>
  "var_decl_re = seq
     [Grp 1 (Star py_isspace),
      Grp 2 ident_re, Star py_isspace, Chr CHR '':'', Star py_isspace,
      Grp 3 (Seq (Cls ident_start) (Star type_char)),
      Opt (Grp 4 (seq [Star py_isspace, Chr CHR ''='', Star py_isspace, Star not_hash_newline])),
      Opt (Grp 5 (seq [Star py_isspace, Chr CHR ''#'', Star any_char])),
      Eos]"

definition func_def_re :: re where
  \<comment> \<open>the pattern of \<open>convert_function_definition\<close>; groups: 1 the indent, 2 the name,
      3 the parameters, 4 the arrow and what follows it, 5 the return type\<close>
  "func_def_re = seq
     [Grp 1 (Star py_isspace), Lit ''def'', Plus py_isspace,
      Grp 2 ident_re, Star py_isspace,
      Chr CHR ''('', Grp 3 (LazyStar any_char), Chr CHR '')'', Star py_isspace,
      Opt (Grp 4 (seq [Lit ''->'', Star py_isspace,
                       Grp 5 (Seq (Cls ident_start) (Star type_char))])),
      Star py_isspace, Chr CHR '':'', Eos]"

definition annotation_re :: re where
  \<comment> \<open>\<open>^\s*[a-zA-Z_][a-zA-Z0-9_]*\s*:\<close>\<close>
  "annotation_re = seq [Star py_isspace, ident_re, Star py_isspace, Chr CHR '':'']"

definition fmt :: "string option \<Rightarrow> string" where
  \<comment> \<open>a group in an f-string: a group that took no part prints as \<open>None\<close>\<close>
  "fmt g = (case g of None \<Rightarrow> ''None'' | Some s \<Rightarrow> s)"

definition convert_variable_declaration :: "registry \<Rightarrow> bool \<Rightarrow> string \<Rightarrow> string outcome" where
  "convert_variable_declaration ctm gen_allow line =
     (case re_match var_decl_re line of
        None \<Rightarrow> Inr (line, [])
      | Some m \<Rightarrow>
          (case m 3 of
             None \<Rightarrow> Inl AttributeError
           | Some type_text \<Rightarrow>
               (case map_type ctm gen_allow type_text of
                  Inl e \<Rightarrow> Inl e
                | Inr (typ, d) \<Rightarrow>
                    Inr (fmt (m 1) @ ''cdef '' @ typ @ '' '' @ fmt (m 2) @ '' '' @
                         py_or (m 4) [] @ py_or (m 5) [], d))))"

definition convert_param :: "registry \<Rightarrow> bool \<Rightarrow> string \<Rightarrow> string list outcome" where
  \<comment> \<open>one round of the loop over \<open>params.split(",")\<close>: what it appends to \<open>param_list\<close>\<close>
  "convert_param ctm gen_allow p =
     (let param = strip p in
      if param = [] then Inr ([], [])
      else if CHR '':'' \<in> set param then
        (case map strip (split_first CHR '':'' param) of
           [pname, ptype] \<Rightarrow>
             if pname = ''self'' then Inr ([''self''], [])
             else
               (case map_type ctm gen_allow ptype of
                  Inl e \<Rightarrow> Inl e
                | Inr (t, d) \<Rightarrow> Inr ([t @ '' '' @ pname], d))
         | _ \<Rightarrow> Inl ValueError)
      else Inr ([param], []))"

definition convert_function_definition :: "registry \<Rightarrow> bool \<Rightarrow> string \<Rightarrow> string outcome" where
  "convert_function_definition ctm gen_allow merged_line =
     (case re_match func_def_re merged_line of
        None \<Rightarrow> Inr (merged_line, [])
      | Some m \<Rightarrow>
          (case (case truthy (m 5) of
                   None \<Rightarrow> Inr (''void'', [])
                 | Some ret_type \<Rightarrow> map_type ctm gen_allow ret_type) of
             Inl e \<Rightarrow> Inl e
           | Inr (ret_cytype, d1) \<Rightarrow>
               (case m 3 of
                  None \<Rightarrow> Inl AttributeError
                | Some params \<Rightarrow>
                    (case collect (map (convert_param ctm gen_allow) (split_on CHR '','' params)) of
                       Inl e \<Rightarrow> Inl e
                     | Inr (appended, d2) \<Rightarrow>
                         Inr (fmt (m 1) @ ''cpdef '' @ ret_cytype @ '' '' @ fmt (m 2) @ ''('' @
                              join '', '' (concat appended) @ ''):'', d1 @ d2)))))"

section \<open>The line classification state machine\<close>

definition file_level_enabled :: "string list \<Rightarrow> bool" where
  "file_level_enabled lines = list_ex (py_in ''use-cython'') (take 3 lines)"

record state =
  cur_i :: nat
  in_block :: bool
  next_line_compiled :: bool
  result :: "string list"
  stderr :: "diagnostic list"

text \<open>
  \<open>cur_i\<close> is the cursor \<open>i\<close> of \<open>convert_typing_to_cython\<close>, \<open>stderr\<close> the diagnostics
  printed so far. \<open>collect_header\<close> is the inner loop that gathers the lines of a function
  header, \<open>step\<close> one round of the outer loop.
\<close>

function collect_header :: "string list \<Rightarrow> nat \<Rightarrow> string \<Rightarrow> string list \<Rightarrow> nat \<times> string list" where
  "collect_header lines i line func_block =
     (if \<not> endswith (strip line) '':'' \<and> i + 1 < length lines
      then collect_header lines (i + 1) (lines ! (i + 1)) (func_block @ [lines ! (i + 1)])
      else (i, func_block))"
  by pat_completeness auto
termination
  by (relation "measure (\<lambda>(lines, i, line, func_block). length lines - i)") auto

declare collect_header.simps [simp del]

definition emit :: "state \<Rightarrow> string \<Rightarrow> nat \<Rightarrow> state" where
  \<comment> \<open>\<open>result.append(text)\<close> and the cursor moved to \<open>j\<close>\<close>
  "emit st text j = st\<lparr>result := result st @ [text], cur_i := j\<rparr>"

definition step :: "registry \<Rightarrow> bool \<Rightarrow> bool \<Rightarrow> string list \<Rightarrow> state \<Rightarrow> error + state" where
  "step ctm gen_allow file_wide lines st =
     (let line = lines ! cur_i st; stripped = strip line in
      if stripped = ''@compile'' then
        Inr (emit (st\<lparr>next_line_compiled := True\<rparr>) line (cur_i st + 1))
      else if startswith stripped ''#'' \<and> py_in ''cython-begin'' stripped then
        Inr (emit (st\<lparr>in_block := True\<rparr>) line (cur_i st + 1))
      else if startswith stripped ''#'' \<and> py_in ''cython-end'' stripped then
        Inr (emit (st\<lparr>in_block := False\<rparr>) line (cur_i st + 1))
      else
        (let compile_now = file_wide \<or> in_block st \<or> next_line_compiled st;
             st1 = st\<lparr>next_line_compiled := False\<rparr> in
         if startswith stripped ''@'' then Inr (emit st1 line (cur_i st + 1))
         else if startswith stripped ''def '' \<and> compile_now then
           (case collect_header lines (cur_i st) line [line] of
              (j, func_block) \<Rightarrow>
                (case convert_function_definition ctm gen_allow (join '' '' func_block) of
                   Inl e \<Rightarrow> Inl e
                 | Inr (converted, d) \<Rightarrow>
                     Inr (emit (st1\<lparr>stderr := stderr st @ d\<rparr>) converted (j + 1))))
         else if compile_now \<and> re_match annotation_re line \<noteq> None then
           (case convert_variable_declaration ctm gen_allow line of
              Inl e \<Rightarrow> Inl e
            | Inr (converted, d) \<Rightarrow>
                Inr (emit (st1\<lparr>stderr := stderr st @ d\<rparr>) converted (cur_i st + 1)))
         else Inr (emit st1 line (cur_i st + 1))))"

lemma collect_header_ge: "collect_header lines i line func_block = (j, b) \<Longrightarrow> i \<le> j"
proof (induction lines i line func_block rule: collect_header.induct)
  case (1 lines i line func_block)
  show ?case
  proof (cases "\<not> endswith (strip line) '':'' \<and> i + 1 < length lines")
    case True
    with "1.prems" have "collect_header lines (i + 1) (lines ! (i + 1)) (func_block @ [lines ! (i + 1)]) = (j, b)"
      by (subst (asm) collect_header.simps) simp
    from "1.IH" [OF True this] show ?thesis by simp
  next
    case False
    with "1.prems" show ?thesis by (subst (asm) collect_header.simps) auto
  qed
qed

lemma step_advances: "step ctm gen_allow file_wide lines st = Inr st' \<Longrightarrow> cur_i st < cur_i st'"
  unfolding step_def emit_def Let_def
  by (auto split: if_splits prod.splits sum.splits dest: collect_header_ge)

function loop :: "registry \<Rightarrow> bool \<Rightarrow> bool \<Rightarrow> string list \<Rightarrow> state \<Rightarrow> error + state" where
  \<comment> \<open>\<open>while i < len(lines)\<close>\<close>
  "loop ctm gen_allow file_wide lines st =
     (if cur_i st < length lines then
        (case step ctm gen_allow file_wide lines st of
           Inl e \<Rightarrow> Inl e
         | Inr st' \<Rightarrow> loop ctm gen_allow file_wide lines st')
      else Inr st)"
  by pat_completeness auto
termination
proof (relation "measure (\<lambda>(ctm, gen_allow, file_wide, lines, st). length lines - cur_i st)",
    goal_cases)
  case 1
  show ?case by simp
next
  case (2 ctm gen_allow file_wide lines st st')
  from step_advances [OF 2(2)] 2(1) show ?case by simp
qed

declare loop.simps [simp del]

definition initial :: state where
  "initial = \<lparr>cur_i = 0, in_block = False, next_line_compiled = False, result = [], stderr = []\<rparr>"

definition convert_typing_to_cython :: "registry \<Rightarrow> bool \<Rightarrow> string \<Rightarrow> bool \<Rightarrow> string outcome" where
  "convert_typing_to_cython ctm gen_allow source force_global =
     (let lines = splitlines source;
          file_wide = force_global \<or> file_level_enabled lines in
      case loop ctm gen_allow file_wide lines initial of
        Inl e \<Rightarrow> Inl e
      | Inr st \<Rightarrow> Inr (join [LF] (result st), stderr st))"

text \<open>The three marker lines the scan looks for, as it tests them on the stripped line.\<close>

definition one_shot_marker :: "string \<Rightarrow> bool" where
  "one_shot_marker line \<longleftrightarrow> strip line = ''@compile''"

definition region_begin :: "string \<Rightarrow> bool" where
  "region_begin line \<longleftrightarrow> startswith (strip line) ''#'' \<and> py_in ''cython-begin'' (strip line)"

definition region_end :: "string \<Rightarrow> bool" where
  "region_end line \<longleftrightarrow> startswith (strip line) ''#'' \<and> py_in ''cython-end'' (strip line)"

section \<open>What a match of a pattern says about the text\<close>

lemma in_rmatch_Seq_pair:
  "(c', s') \<in> set (rmatch (Seq a b) (c, s)) \<longleftrightarrow>
     (\<exists>c1 s1. (c1, s1) \<in> set (rmatch a (c, s)) \<and> (c', s') \<in> set (rmatch b (c1, s1)))"
  by (auto simp: in_rmatch_Seq)

lemma in_rmatch_Opt_pair:
  "(c', s') \<in> set (rmatch (Opt a) (c, s)) \<longleftrightarrow>
     (c', s') \<in> set (rmatch a (c, s)) \<or> (c' = c \<and> s' = s)"
  by (auto simp: in_rmatch_Opt)

lemma in_rmatch_Eps_pair: "(c', s') \<in> set (rmatch Eps (c, s)) \<longleftrightarrow> c' = c \<and> s' = s"
  by (auto simp: in_rmatch_Eps)

lemma in_rmatch_Grp_pre:
  "(c', s') \<in> set (rmatch (Grp g a) (c, s)) \<longleftrightarrow>
     (\<exists>c0 pre. (c0, s') \<in> set (rmatch a (c, s)) \<and> s = pre @ s' \<and> c' = c0(g \<mapsto> pre))"
proof
  assume "(c', s') \<in> set (rmatch (Grp g a) (c, s))"
  then obtain c0 where 1: "(c0, s') \<in> set (rmatch a (c, s))"
    and 2: "c' = c0(g \<mapsto> take (length s - length s') s)"
    by (auto simp: in_rmatch_Grp)
  from rmatch_suffix [OF 1] obtain pre where "s = pre @ s'" ..
  with 1 2 show "\<exists>c0 pre. (c0, s') \<in> set (rmatch a (c, s)) \<and> s = pre @ s' \<and> c' = c0(g \<mapsto> pre)"
    by auto
next
  assume "\<exists>c0 pre. (c0, s') \<in> set (rmatch a (c, s)) \<and> s = pre @ s' \<and> c' = c0(g \<mapsto> pre)"
  then show "(c', s') \<in> set (rmatch (Grp g a) (c, s))"
    by (auto simp: in_rmatch_Grp)
qed

lemmas in_rm = in_rmatch_Cls in_rmatch_Chr in_rmatch_Star in_rmatch_LazyStar in_rmatch_Seq_pair
  in_rmatch_Opt_pair in_rmatch_Grp_pre in_rmatch_Eps_pair in_rmatch_Eos

lemma py_or_Nil: "py_or g [] = (case g of None \<Rightarrow> [] | Some s \<Rightarrow> s)"
  by (auto simp: py_or_def truthy_def split: option.splits)

lemma var_decl_re_in:
  assumes "(m, s') \<in> set (rmatch var_decl_re (Map.empty, line))"
  shows "\<exists>indent var ws1 ws2 type_text.
           m 1 = Some indent \<and> m 2 = Some var \<and> m 3 = Some type_text \<and>
           line = indent @ var @ ws1 @ '':'' @ ws2 @ type_text @ py_or (m 4) [] @ py_or (m 5) [] @ s' \<and>
           (s' = [] \<or> s' = [LF]) \<and>
           list_all py_isspace indent \<and> list_all py_isspace ws1 \<and> list_all py_isspace ws2 \<and>
           var \<noteq> [] \<and> ident_start (hd var) \<and> list_all ident_char (tl var) \<and>
           type_text \<noteq> [] \<and> ident_start (hd type_text) \<and> list_all type_char (tl type_text)"
  using assms unfolding var_decl_re_def seq_def ident_re_def py_or_Nil
  apply (simp add: in_rm)
  apply (elim exE conjE disjE)
         apply (simp_all)
     apply fastforce+
  done



section \<open>The rewriters and the scan return\<close>







definition match_groups :: "re \<Rightarrow> string \<Rightarrow> string option list option" where
  \<comment> \<open>\<open>match.groups()\<close> for a pattern of at most five groups, \<open>None\<close> when there is no match\<close>
  "match_groups r s = (case re_match r s of None \<Rightarrow> None | Some m \<Rightarrow> Some (map m [1, 2, 3, 4, 5]))"

lemma match_groupsD:
  "match_groups r s = Some [g1, g2, g3, g4, g5] \<Longrightarrow>
     \<exists>m. re_match r s = Some m \<and> m 1 = g1 \<and> m 2 = g2 \<and> m 3 = g3 \<and> m 4 = g4 \<and> m 5 = g5"
  by (auto simp: match_groups_def split: option.splits)

section \<open>The lines of a function header\<close>

text \<open>
  \<open>header_span_spec\<close> follows the words of the specification, not the code: of the lines
  from the cursor on, the lines up to and including the first whose stripped text ends
  with the colon, or all of them when there is none. \<open>collect_header\<close>, the inner loop of
  the code, gathers these lines and stops the cursor on the last of them.
\<close>

fun header_span_spec :: "string list \<Rightarrow> string list" where
  "header_span_spec [] = []"
| "header_span_spec (l # ls) = (if endswith (strip l) '':'' then [l] else l # header_span_spec ls)"

lemma header_span_spec_prefix:
  "header_span_spec ls = take (length (header_span_spec ls)) ls"
  by (induction ls) auto


lemma header_span_spec_ends:
  "header_span_spec ls = ls \<or> (header_span_spec ls \<noteq> [] \<and> endswith (strip (last (header_span_spec ls))) '':'')"
  by (induction ls) auto

lemma header_span_spec_inner:
  "l \<in> set (butlast (header_span_spec ls)) \<Longrightarrow> \<not> endswith (strip l) '':''"
  by (induction ls) (auto split: if_splits)



lemma truthy_Some: "s \<noteq> [] \<Longrightarrow> truthy (Some s) = Some s"
  by (simp add: truthy_def)

section \<open>Lines that the scan leaves alone\<close>

lemma state_flag_idle: "\<not> next_line_compiled st \<Longrightarrow> st\<lparr>next_line_compiled := False\<rparr> = st"
  by simp

lemma state_block_idle: "\<not> in_block st \<Longrightarrow> st\<lparr>in_block := False\<rparr> = st"
  by simp

lemma step_idle:
  assumes "\<not> one_shot_marker (lines ! cur_i st)" and "\<not> region_begin (lines ! cur_i st)"
    and "\<not> file_wide" and "\<not> in_block st" and "\<not> next_line_compiled st"
  shows "step ctm gen_allow file_wide lines st = Inr (emit st (lines ! cur_i st) (cur_i st + 1))"
  using assms unfolding step_def Let_def one_shot_marker_def region_begin_def
  by (auto simp: state_flag_idle state_block_idle)

lemma loop_idle:
  assumes "\<forall>l \<in> set lines. \<not> one_shot_marker l \<and> \<not> region_begin l"
    and "\<not> file_wide" and "\<not> in_block st" and "\<not> next_line_compiled st"
    and "cur_i st \<le> length lines"
  shows "loop ctm gen_allow file_wide lines st =
           Inr (st\<lparr>result := result st @ drop (cur_i st) lines, cur_i := length lines\<rparr>)"
  using assms
proof (induction ctm gen_allow file_wide lines st rule: loop.induct)
  case (1 ctm gen_allow file_wide lines st)
  show ?case
  proof (cases "cur_i st < length lines")
    case True
    let ?st1 = "emit st (lines ! cur_i st) (cur_i st + 1)"
    from True "1.prems"(1) have "\<not> one_shot_marker (lines ! cur_i st)"
      and "\<not> region_begin (lines ! cur_i st)" by auto
    from step_idle [OF this "1.prems"(2-4)]
    have s: "step ctm gen_allow file_wide lines st = Inr ?st1" .
    have "loop ctm gen_allow file_wide lines ?st1 =
        Inr (?st1\<lparr>result := result ?st1 @ drop (cur_i ?st1) lines, cur_i := length lines\<rparr>)"
      using "1.prems" True by (intro "1.IH" [OF True s]) (simp_all add: emit_def)
    moreover have "loop ctm gen_allow file_wide lines st = loop ctm gen_allow file_wide lines ?st1"
      using True s by (subst loop.simps) simp
    moreover have "lines ! cur_i st # drop (Suc (cur_i st)) lines = drop (cur_i st) lines"
      using True by (simp add: Cons_nth_drop_Suc)
    ultimately show ?thesis by (simp add: emit_def)
  next
    case False
    with "1.prems" show ?thesis by (subst loop.simps) simp
  qed
qed

lemma state_stderr_idle: "st\<lparr>stderr := stderr st @ []\<rparr> = st"
  by simp

section \<open>Splitting and joining lines\<close>

lemma splitlines_Nil [simp]: "splitlines [] = []"
  by (subst splitlines.simps) simp









section \<open>Plain identifiers\<close>

definition is_identifier :: "string \<Rightarrow> bool" where
  \<comment> \<open>a plain identifier: the whole text matches \<open>[a-zA-Z_][a-zA-Z0-9_]*\<close>\<close>
  "is_identifier s \<longleftrightarrow> (case s of [] \<Rightarrow> False | c # cs \<Rightarrow> ident_start c \<and> list_all ident_char cs)"

lemma ident_char_facts:
  assumes "ident_char c"
  shows "\<not> py_isspace c" "c \<noteq> CHR '' ''" "c \<noteq> CHR ''[''" "dotted_char c" "c \<noteq> LF"
  using assms
  by (auto simp: ident_char_def ident_start_def py_isspace_def dotted_char_def LF_def)

lemma ident_start_facts:
  assumes "ident_start c"
  shows "ident_char c" "\<not> py_isdigit_char c"
  using assms by (auto simp: ident_char_def ident_start_def py_isdigit_char_def)

lemma is_identifier_chars: "is_identifier s \<Longrightarrow> c \<in> set s \<Longrightarrow> ident_char c"
  by (cases s) (auto simp: is_identifier_def list_all_iff ident_start_facts)

lemma strip_no_space: "\<forall>c \<in> set s. \<not> py_isspace c \<Longrightarrow> strip s = s"
proof -
  assume a: "\<forall>c \<in> set s. \<not> py_isspace c"
  then have "dropWhile py_isspace s = s" by (cases s) auto
  moreover from a have "dropWhile py_isspace (rev s) = rev s" by (cases "rev s") auto
  ultimately show ?thesis by (simp add: strip_def lstrip_def rstrip_def)
qed

lemma normalize_identifier:
  assumes "is_identifier s"
  shows "remove_spaces (strip s) = s"
proof -
  from assms have "\<forall>c \<in> set s. \<not> py_isspace c" and sp: "\<forall>c \<in> set s. c \<noteq> CHR '' ''"
    using is_identifier_chars ident_char_facts by blast+
  then have "strip s = s" by (simp add: strip_no_space)
  moreover from sp have "remove_spaces s = s" by (simp add: remove_spaces_def)
  ultimately show ?thesis by simp
qed

lemma identifier_not_digit: "is_identifier s \<Longrightarrow> \<not> isdigit s"
  by (cases s) (auto simp: is_identifier_def isdigit_def ident_start_facts)

lemma identifier_not_generic:
  assumes "is_identifier s"
  shows "re_match generic_re s = None"
proof (cases "re_match generic_re s")
  case None
  then show ?thesis .
next
  case (Some m)
  from generic_re_groups [OF Some] have "CHR ''['' \<in> set s" by auto
  with is_identifier_chars [OF assms] ident_char_facts(3) show ?thesis by blast
qed

lemma unwrap_literal_identifier:
  assumes "is_identifier s"
  shows "unwrap_literal s = s"
proof -
  have "\<not> startswith s ''Literal[''"
  proof
    assume "startswith s ''Literal[''"
    then have "set ''Literal['' \<subseteq> set s"
      unfolding startswith_def by (metis set_take_subset)
    then have "CHR ''['' \<in> set s" by auto
    with is_identifier_chars [OF assms] ident_char_facts(3) show False by blast
  qed
  then show ?thesis by (subst unwrap_literal.simps) simp
qed

lemma star_greedy_append:
  "list_all p pre \<Longrightarrow> \<exists>tail. star_greedy p c (pre @ s) = star_greedy p c s @ tail"
  by (induction pre) auto

lemma star_greedy_all: "list_all p xs \<Longrightarrow> \<exists>tail. star_greedy p c xs = (c, []) # tail"
  using star_greedy_append [of p xs c "[]"] by simp

lemma outer_re_identifier:
  assumes "ident_start x" and "list_all dotted_char xs"
  shows "\<exists>m. re_match outer_re (x # xs) = Some m \<and> m 1 = Some (x # xs)"
proof -
  from star_greedy_all [OF assms(2)] obtain tail where
    "star_greedy dotted_char Map.empty xs = (Map.empty, []) # tail" by blast
  then show ?thesis
    using assms(1)
    by (simp add: re_match_def outer_re_def seq_def rmatch.simps)
qed

lemma map_type_identifier:
  assumes "is_identifier s" and "ctm s = None" and "TYPE_MAP s = None"
  shows "map_type ctm gen_allow s =
           Inr (s, if s = ''object'' then [Unrecognized s] else [])"
proof -
  obtain x xs where s: "s = x # xs" and x: "ident_start x" and xs: "list_all ident_char xs"
    using assms(1) by (cases s) (auto simp: is_identifier_def)
  from s have "s \<noteq> []" by simp
  from xs have "list_all dotted_char xs" by (auto simp: list_all_iff ident_char_facts)
  from outer_re_identifier [OF x this] s obtain m where
    m: "re_match outer_re s = Some m" "m 1 = Some s" by blast
  have "map_type ctm gen_allow s = Inr (bare_lookup ctm s s)"
    using map_type_bare [of s ctm gen_allow] assms(1)
    by (simp add: normalize_identifier identifier_not_digit identifier_not_generic)
  moreover have "bare_lookup ctm s s = (s, if s = ''object'' then [Unrecognized s] else [])"
    using assms(2,3) m \<open>s \<noteq> []\<close>
    by (simp add: bare_lookup_def unwrap_literal_identifier [OF assms(1)] py_or_def truthy_def
        Let_def)
  ultimately show ?thesis by simp
qed

section \<open>Which diagnostics a call prints\<close>

lemma collect_origin:
  "collect (map f xs) = Inr (vs, ds) \<Longrightarrow> y \<in> set ds \<Longrightarrow>
     \<exists>x \<in> set xs. \<exists>v d. f x = Inr (v, d) \<and> y \<in> set d"
proof (induction xs arbitrary: vs ds)
  case Nil
  then show ?case by simp
next
  case (Cons x xs)
  then show ?case
    by (auto split: sum.splits prod.splits)
qed

lemma map_type_generic:
  assumes "\<not> isdigit (remove_spaces (strip pytype))"
    and "re_match generic_re (remove_spaces (strip pytype)) = Some m"
    and "m 1 = Some typename" and "m 2 = Some args_str"
    and "try_custom_template ctm gen_allow typename (map strip (split_on CHR '','' args_str)) =
           Inr (substituted, d1)"
  shows "map_type ctm gen_allow pytype =
          (case truthy substituted of
             Some sub \<Rightarrow> Inr (sub, d1)
           | None \<Rightarrow>
               if typename = ''tuple'' then
                 (case collect (map (map_type ctm gen_allow) (map strip (split_on CHR '','' args_str))) of
                    Inl e \<Rightarrow> Inl e
                  | Inr (rs, d2) \<Rightarrow> Inr (''('' @ join '', '' rs @ '')'', d1 @ d2))
               else if typename \<in> set [''tuple'', ''set'', ''list'', ''dict''] \<or> gen_allow
               then
                 (case map strip (split_on CHR '','' args_str) of
                    [] \<Rightarrow> Inl IndexError
                  | a # _ \<Rightarrow>
                      (case map_type ctm gen_allow (unwrap_literal a) of
                         Inl e \<Rightarrow> Inl e
                       | Inr (r, d2) \<Rightarrow> Inr (typename @ ''['' @ r @ '']'', d1 @ d2)))
               else
                 (case bare_lookup ctm pytype (remove_spaces (strip pytype)) of
                    (r, d2) \<Rightarrow> Inr (r, d1 @ d2)))"
  using assms by (subst map_type.simps) (simp add: Let_def)

lemma diagnostics_are_shorter:
  "map_type ctm gen_allow pytype = Inr (r, d) \<Longrightarrow> Unrecognized x \<in> set d \<Longrightarrow>
     length x \<le> length pytype"
  "try_custom_template ctm gen_allow name args = Inr (ro, d) \<Longrightarrow> Unrecognized x \<in> set d \<Longrightarrow>
     length x \<le> sum_list (map length args)"
proof (induction ctm gen_allow pytype and ctm gen_allow name args arbitrary: r d and ro d
    rule: map_type_try_custom_template.induct)
  case (1 ctm gen_allow pytype)
  define base where "base = remove_spaces (strip pytype)"
  show ?case
  proof (cases "isdigit base")
    case True
    with "1.prems" show ?thesis by (subst (asm) map_type.simps) (simp add: base_def)
  next
    case nd: False
    show ?thesis
    proof (cases "re_match generic_re base")
      case None
      with nd "1.prems" show ?thesis
        by (subst (asm) map_type.simps)
          (auto simp: base_def bare_lookup_def Let_def split: option.splits if_splits)
    next
      case m: (Some m)
      from generic_re_groups [OF m] obtain typename args_str
        where g1: "m 1 = Some typename" and g2: "m 2 = Some args_str" by blast
      define args where "args = map strip (split_on CHR '','' args_str)"
      have sh: "sum_list (map length args) < length pytype"
        using generic_args_shorter [of pytype m args_str "CHR '',''"] m g2
        by (simp add: base_def args_def)
      have mem: "length a \<le> sum_list (map length args)" if "a \<in> set args" for a
        using that member_le_sum_list [of "length a" "map length args"] by auto
      have pr: "(m 1, m 2) = (m 1, m 2)" by simp
      from map_type_returns(2) obtain substituted d1 where
        t: "try_custom_template ctm gen_allow typename args = Inr (substituted, d1)" by blast
      note IH1 = "1.IH"(1) [OF base_def nd m pr g1 g2 args_def t]
      have d1: "length x \<le> length pytype" if "Unrecognized x \<in> set d1"
        using IH1 [OF that] sh by simp
      note u = map_type_generic [OF nd [unfolded base_def] m [unfolded base_def] g1 g2
          t [unfolded args_def]]
      show ?thesis
      proof (cases "truthy substituted")
        case (Some sub)
        with "1.prems" u d1 show ?thesis by simp
      next
        case None
        note IH2 = "1.IH"(2) [OF base_def nd m pr g1 g2 args_def t refl None]
        note IH3 = "1.IH"(3) [OF base_def nd m pr g1 g2 args_def t refl None]
        show ?thesis
        proof (cases "typename = ''tuple''")
          case True
          from "1.prems"(1) u None True obtain rs d2 where
            c: "collect (map (map_type ctm gen_allow) args) = Inr (rs, d2)" and d: "d = d1 @ d2"
            by (auto simp: args_def split: sum.splits)
          show ?thesis
          proof (cases "Unrecognized x \<in> set d1")
            case True
            then show ?thesis by (rule d1)
          next
            case False
            with "1.prems"(2) d have "Unrecognized x \<in> set d2" by simp
            from collect_origin [OF c this] obtain a v d' where
              a: "a \<in> set args" and ma: "map_type ctm gen_allow a = Inr (v, d')"
              and xa: "Unrecognized x \<in> set d'" by blast
            from IH2 [OF True a ma xa] mem [OF a] sh show ?thesis by simp
          qed
        next
          case nt: False
          show ?thesis
          proof (cases "typename \<in> set [''tuple'', ''set'', ''list'', ''dict''] \<or> gen_allow")
            case True
            have "args \<noteq> []" by (simp add: args_def split_on_not_Nil)
            then obtain a as where a: "args = a # as" by (cases args) auto
            from "1.prems"(1) u None nt True a obtain r2 d2 where
              c: "map_type ctm gen_allow (unwrap_literal a) = Inr (r2, d2)" and d: "d = d1 @ d2"
              by (auto simp: args_def split: sum.splits)
            show ?thesis
            proof (cases "Unrecognized x \<in> set d1")
              case True
              then show ?thesis by (rule d1)
            next
              case False
              with "1.prems"(2) d have "Unrecognized x \<in> set d2" by simp
              from IH3 [OF nt True a c this] length_unwrap_literal_le [of a] mem [of a] a sh
              show ?thesis by simp
            qed
          next
            case False
            from "1.prems"(1) u None nt False obtain r2 d2 where
              c: "bare_lookup ctm pytype (remove_spaces (strip pytype)) = (r2, d2)"
              and d: "d = d1 @ d2"
              by (auto split: prod.splits)
            from c have "Unrecognized x \<in> set d2 \<Longrightarrow> x = pytype"
              by (auto simp: bare_lookup_def Let_def split: option.splits if_splits)
            with "1.prems"(2) d d1 show ?thesis by auto
          qed
        qed
      qed
    qed
  qed
next
  case (2 ctm gen_allow name args)
  show ?case
  proof (cases "ctm name")
    case None
    with "2.prems" show ?thesis by (subst (asm) try_custom_template.simps) simp
  next
    case (Some entry)
    obtain template param_keys where e: "entry = (template, param_keys)" by (cases entry)
    show ?thesis
    proof (cases "length param_keys \<noteq> length args")
      case True
      with Some e "2.prems" show ?thesis by (subst (asm) try_custom_template.simps) auto
    next
      case False
      let ?f = "\<lambda>(key, val). keyed key (map_type ctm gen_allow (unwrap_literal (strip val)))"
      from "2.prems"(1) Some e False obtain subs where
        c: "collect (map ?f (zip param_keys args)) = Inr (subs, d)"
        by (subst (asm) try_custom_template.simps) (auto split: sum.splits)
      from collect_origin [OF c "2.prems"(2)] obtain kv v d' where
        kv: "kv \<in> set (zip param_keys args)" and f: "?f kv = Inr (v, d')"
        and x: "Unrecognized x \<in> set d'" by blast
      obtain key val where p: "kv = (key, val)" by (cases kv)
      from f p obtain r' where
        mt: "map_type ctm gen_allow (unwrap_literal (strip val)) = Inr (r', d')"
        by (auto simp: keyed_def split: sum.splits)
      from kv p have "val \<in> set args" by (auto dest: set_zip_rightD)
      then have "length val \<le> sum_list (map length args)"
        using member_le_sum_list [of "length val" "map length args"] by auto
      with "2.IH" [OF Some e [symmetric] False kv p [symmetric] mt x]
        length_unwrap_literal_le [of "strip val"] length_strip_le [of val]
      show ?thesis by simp
    qed
  qed
qed


definition template_result :: "registry \<Rightarrow> bool \<Rightarrow> string \<Rightarrow> bool" where
  \<comment> \<open>\<open>map_type\<close> returns the text of a template: a substitution that is not empty, or the
      pattern of a registered bare name\<close>
  "template_result ctm gen_allow pytype \<longleftrightarrow>
     (let base = remove_spaces (strip pytype) in
      \<not> isdigit base \<and>
      (case re_match generic_re base of
         None \<Rightarrow> ctm base \<noteq> None
       | Some m \<Rightarrow>
           (case try_custom_template ctm gen_allow (fmt (m 1))
                   (map strip (split_on CHR '','' (fmt (m 2)))) of
              Inl e \<Rightarrow> False
            | Inr (substituted, d) \<Rightarrow>
                truthy substituted \<noteq> None \<or>
                (fmt (m 1) \<notin> set [''tuple'', ''set'', ''list'', ''dict''] \<and> \<not> gen_allow \<and>
                 ctm base \<noteq> None))))"

lemma bare_lookup_diag:
  "bare_lookup ctm pytype base = (r, d) \<Longrightarrow>
     (Unrecognized pytype \<in> set d \<longleftrightarrow> r = ''object'' \<and> ctm base = None)"
  by (auto simp: bare_lookup_def Let_def split: option.splits if_splits)

lemma map_type_Any:
  assumes "ctm ''Any'' = None"
  shows "map_type ctm gen_allow ''Any'' = Inr (''object'', [Unrecognized ''Any''])"
proof -
  have n: "remove_spaces (strip ''Any'') = ''Any''" "\<not> isdigit ''Any''"
    "re_match generic_re ''Any'' = None" "unwrap_literal ''Any'' = ''Any''"
    "TYPE_MAP ''Any'' = Some ''object''"
    by code_simp+
  have "match_groups outer_re ''Any'' = Some [Some ''Any'', None, None, None, None]"
    by code_simp
  from match_groupsD [OF this] obtain m where
    m: "re_match outer_re ''Any'' = Some m" "m 1 = Some ''Any''" by blast
  have "map_type ctm gen_allow ''Any'' = Inr (bare_lookup ctm ''Any'' ''Any'')"
    using map_type_bare [of "''Any''" ctm gen_allow] n by simp
  moreover have "bare_lookup ctm ''Any'' ''Any'' = (''object'', [Unrecognized ''Any''])"
    using assms m n by (simp add: bare_lookup_def py_or_def truthy_def Let_def)
  ultimately show ?thesis by simp
qed

lemma unrecognized_iff:
  assumes "map_type ctm gen_allow pytype = Inr (r, d)"
  shows "Unrecognized pytype \<in> set d \<longleftrightarrow> r = ''object'' \<and> \<not> template_result ctm gen_allow pytype"
proof -
  define base where "base = remove_spaces (strip pytype)"
  have nobj: "\<not> isdigit ''object''" by code_simp
  show ?thesis
  proof (cases "isdigit base")
    case True
    with assms have "r = base" "d = []"
      by (subst (asm) map_type.simps, simp add: base_def)+
    with True nobj show ?thesis by auto
  next
    case nd: False
    show ?thesis
    proof (cases "re_match generic_re base")
      case None
      with nd assms have b: "bare_lookup ctm pytype base = (r, d)"
        by (subst (asm) map_type.simps) (simp add: base_def)
      have "template_result ctm gen_allow pytype \<longleftrightarrow> ctm base \<noteq> None"
        using nd None by (simp add: template_result_def base_def [symmetric])
      with bare_lookup_diag [OF b] show ?thesis by auto
    next
      case m: (Some m)
      from generic_re_groups [OF m] obtain typename args_str
        where g1: "m 1 = Some typename" and g2: "m 2 = Some args_str" by blast
      define args where "args = map strip (split_on CHR '','' args_str)"
      have sh: "sum_list (map length args) < length pytype"
        using generic_args_shorter [of pytype m args_str "CHR '',''"] m g2
        by (simp add: base_def args_def)
      have mem: "length a \<le> sum_list (map length args)" if "a \<in> set args" for a
        using that member_le_sum_list [of "length a" "map length args"] by auto
      from map_type_returns(2) obtain substituted d1 where
        t: "try_custom_template ctm gen_allow typename args = Inr (substituted, d1)" by blast
      have d1: "Unrecognized pytype \<notin> set d1"
        using diagnostics_are_shorter(2) [OF t, of pytype] sh by auto
      have tr: "template_result ctm gen_allow pytype \<longleftrightarrow>
          truthy substituted \<noteq> None \<or>
          (typename \<notin> set [''tuple'', ''set'', ''list'', ''dict''] \<and> \<not> gen_allow \<and>
           ctm base \<noteq> None)"
        using nd m g1 g2 t
        by (simp add: template_result_def base_def [symmetric] args_def [symmetric] fmt_def)
      note u = map_type_generic [OF nd [unfolded base_def] m [unfolded base_def] g1 g2
          t [unfolded args_def]]
      show ?thesis
      proof (cases "truthy substituted")
        case (Some sub)
        with assms u have "d = d1" by simp
        with d1 tr Some show ?thesis by simp
      next
        case None
        show ?thesis
        proof (cases "typename = ''tuple''")
          case True
          from assms u None True obtain rs d2 where
            c: "collect (map (map_type ctm gen_allow) args) = Inr (rs, d2)"
            and d: "d = d1 @ d2" and r: "r = ''('' @ join '', '' rs @ '')''"
            by (auto simp: args_def split: sum.splits)
          have "Unrecognized pytype \<notin> set d2"
          proof
            assume "Unrecognized pytype \<in> set d2"
            from collect_origin [OF c this] obtain a v d' where
              a: "a \<in> set args" and ma: "map_type ctm gen_allow a = Inr (v, d')"
              and xa: "Unrecognized pytype \<in> set d'" by blast
            from diagnostics_are_shorter(1) [OF ma xa] mem [OF a] sh show False by simp
          qed
          with d d1 r show ?thesis by simp
        next
          case nt: False
          show ?thesis
          proof (cases "typename \<in> set [''tuple'', ''set'', ''list'', ''dict''] \<or> gen_allow")
            case True
            have "args \<noteq> []" by (simp add: args_def split_on_not_Nil)
            then obtain a as where a: "args = a # as" by (cases args) auto
            from assms u None nt True a obtain r2 d2 where
              c: "map_type ctm gen_allow (unwrap_literal a) = Inr (r2, d2)"
              and d: "d = d1 @ d2" and r: "r = typename @ ''['' @ r2 @ '']''"
              by (auto simp: args_def split: sum.splits)
            have "Unrecognized pytype \<notin> set d2"
              using diagnostics_are_shorter(1) [OF c, of pytype] length_unwrap_literal_le [of a]
                mem [of a] a sh by auto
            moreover have "last r = CHR '']''" by (simp add: r)
            then have "r \<noteq> ''object''" by auto
            ultimately show ?thesis using d d1 by simp
          next
            case False
            from assms u None nt False obtain d2 where
              c: "bare_lookup ctm pytype base = (r, d2)" and d: "d = d1 @ d2"
              by (auto simp: base_def split: prod.splits)
            from bare_lookup_diag [OF c] d d1 tr None nt False show ?thesis by auto
          qed
        qed
      qed
    qed
  qed
qed

section \<open>Template substitution\<close>

lemma star_greedy_stop:
  assumes "list_all p pre" and "s = [] \<or> \<not> p (hd s)"
  shows "\<exists>tail. star_greedy p c (pre @ s) = (c, s) # tail"
proof -
  from star_greedy_append [OF assms(1)] obtain tail where
    "star_greedy p c (pre @ s) = star_greedy p c s @ tail" by blast
  moreover from assms(2) have "star_greedy p c s = [(c, s)]" by (cases s) auto
  ultimately show ?thesis by simp
qed

lemma star_greedy_last:
  assumes "list_all p pre" and "p y"
  shows "\<exists>tail. star_greedy p c (pre @ [y]) = (c, []) # (c, [y]) # tail"
proof -
  from star_greedy_append [OF assms(1)] obtain tail where
    "star_greedy p c (pre @ [y]) = star_greedy p c [y] @ tail" by blast
  with assms(2) show ?thesis by simp
qed

lemma generic_re_matches:
  assumes "is_identifier name" and "LF \<notin> set args_str"
  shows "\<exists>m. re_match generic_re (name @ ''['' @ args_str @ '']'') = Some m \<and>
           m 1 = Some name \<and> m 2 = Some args_str"
proof -
  obtain x xs where n: "name = x # xs" and x: "ident_start x" and xs: "list_all ident_char xs"
    using assms(1) by (cases name) (auto simp: is_identifier_def)
  let ?rest = "''['' @ args_str @ '']''"
  have nb: "\<not> ident_char (hd ?rest)" by (auto simp: ident_char_def ident_start_def)
  from star_greedy_stop [OF xs, of ?rest Map.empty] nb obtain t1 where
    1: "star_greedy ident_char Map.empty (xs @ ?rest) = (Map.empty, ?rest) # t1" by auto
  have "list_all any_char args_str" using assms(2) by (auto simp: list_all_iff any_char_def)
  moreover have "any_char CHR '']''" by (simp add: any_char_def LF_def)
  ultimately obtain t2 where
    2: "star_greedy any_char [1 \<mapsto> name] (args_str @ '']'') =
          ([1 \<mapsto> name], []) # ([1 \<mapsto> name], '']'') # t2"
    using star_greedy_last [of any_char args_str "CHR '']''" "[1 \<mapsto> name]"] by auto
  have "\<exists>tail. rmatch generic_re (Map.empty, name @ ?rest) =
          ([1 \<mapsto> name, 2 \<mapsto> args_str], []) # tail"
    using x 1 2
    by (simp add: generic_re_def seq_def ident_re_def Chr_def rmatch.simps n)
  then show ?thesis by (auto simp: re_match_def)
qed














lemma py_replace_absent: "old \<noteq> [] \<Longrightarrow> \<not> py_in old s \<Longrightarrow> py_replace old new s = s"
  by (induction s) auto



text \<open>
  \<open>py_replace\<close> leaves a text without the placeholder as it is, and replaces the first
  occurrence and goes on after it: it replaces every occurrence, leftmost first.
\<close>

lemma py_replace_here:
  "old \<noteq> [] \<Longrightarrow> py_replace old new (old @ b) = new @ py_replace old new b"
  by (cases old) (simp_all add: startswith_def)

lemma startswith_longer:
  assumes "startswith (s @ t) p" and "length p \<le> length s"
  shows "startswith s p"
  using assms by (simp add: startswith_def)

lemma py_replace_first:
  assumes "old \<noteq> []" and "\<not> py_in old (a @ butlast old)"
  shows "py_replace old new (a @ old @ b) = a @ new @ py_replace old new b"
  using assms(2)
proof (induction a)
  case Nil
  from assms(1) show ?case by (simp add: py_replace_here)
next
  case (Cons x a)
  from Cons.prems have ns: "\<not> startswith (x # a @ butlast old) old"
    and np: "\<not> py_in old (a @ butlast old)" by simp_all
  have "\<not> startswith (x # a @ old @ b) old"
  proof
    assume s: "startswith (x # a @ old @ b) old"
    have "x # a @ old @ b = (x # a @ butlast old) @ (last old # b)"
      using assms(1) by simp
    with s have "startswith ((x # a @ butlast old) @ (last old # b)) old" by simp
    moreover have "length old \<le> length (x # a @ butlast old)" by simp
    ultimately have "startswith (x # a @ butlast old) old" by (rule startswith_longer)
    with ns show False ..
  qed
  with Cons.IH [OF np] assms(1) show ?case by simp
qed

section \<open>The call stack of the engine\<close>

text \<open>
  The engine on a bounded stack either raises \<open>RecursionError\<close> or does what the engine
  does on an unbounded one; twice the length of the text, and one frame more, is always
  enough. \<open>nested_list k\<close> is the text \<open>list[list[...[int]...]]\<close> with \<open>k\<close> brackets:
  it takes more than \<open>k\<close> frames, whatever the registry.
\<close>

lemma map_type_limited_bare:
  assumes "\<not> isdigit (remove_spaces (strip pytype))"
    and "re_match generic_re (remove_spaces (strip pytype)) = None"
  shows "map_type_limited (Suc depth) ctm gen_allow pytype =
           Inr (bare_lookup ctm pytype (remove_spaces (strip pytype)))"
  using assms by simp

lemma map_type_limited_generic:
  assumes "\<not> isdigit (remove_spaces (strip pytype))"
    and "re_match generic_re (remove_spaces (strip pytype)) = Some m"
    and "m 1 = Some typename" and "m 2 = Some args_str"
  shows "map_type_limited (Suc depth) ctm gen_allow pytype =
     (case try_custom_template_limited depth ctm gen_allow typename
             (map strip (split_on CHR '','' args_str)) of
        Inl e \<Rightarrow> Inl e
      | Inr (substituted, d1) \<Rightarrow>
          (case truthy substituted of
             Some sub \<Rightarrow> Inr (sub, d1)
           | None \<Rightarrow>
               if typename = ''tuple'' then
                 (case tuple_items_limited depth ctm gen_allow
                         (map strip (split_on CHR '','' args_str)) of
                    Inl e \<Rightarrow> Inl e
                  | Inr (rs, d2) \<Rightarrow> Inr (''('' @ join '', '' rs @ '')'', d1 @ d2))
               else if typename \<in> set [''tuple'', ''set'', ''list'', ''dict''] \<or> gen_allow
               then
                 (case map strip (split_on CHR '','' args_str) of
                    [] \<Rightarrow> Inl IndexError
                  | a # _ \<Rightarrow>
                      (case map_type_limited depth ctm gen_allow (unwrap_literal a) of
                         Inl e \<Rightarrow> Inl e
                       | Inr (r, d2) \<Rightarrow> Inr (typename @ ''['' @ r @ '']'', d1 @ d2)))
               else
                 (case bare_lookup ctm pytype (remove_spaces (strip pytype)) of
                    (r, d2) \<Rightarrow> Inr (r, d1 @ d2))))"
  using assms by (simp add: Let_def)

declare map_type_limited.simps(2) [simp del]

lemma limited_simulates:
  "map_type_limited depth ctm gen_allow pytype = Inl RecursionError \<or>
   map_type_limited depth ctm gen_allow pytype = map_type ctm gen_allow pytype"
  "try_custom_template_limited depth ctm gen_allow name args = Inl RecursionError \<or>
   try_custom_template_limited depth ctm gen_allow name args =
     try_custom_template ctm gen_allow name args"
  "tuple_items_limited depth ctm gen_allow args = Inl RecursionError \<or>
   tuple_items_limited depth ctm gen_allow args = collect (map (map_type ctm gen_allow) args)"
proof (induction depth arbitrary: pytype name args)
  case 0
  {
    case 1 show ?case by simp
  next
    case 2 show ?case by simp
  next
    case 3 show ?case by simp
  }
next
  case (Suc depth)
  {
    case 1
    have t: "try_custom_template_limited depth ctm gen_allow name args = Inl RecursionError \<or>
       try_custom_template_limited depth ctm gen_allow name args =
       try_custom_template ctm gen_allow name args" for name args
      by (rule Suc.IH(2))
    have g: "tuple_items_limited depth ctm gen_allow args = Inl RecursionError \<or>
       tuple_items_limited depth ctm gen_allow args = collect (map (map_type ctm gen_allow) args)"
      for args by (rule Suc.IH(3))
    have m: "map_type_limited depth ctm gen_allow s = Inl RecursionError \<or>
       map_type_limited depth ctm gen_allow s = map_type ctm gen_allow s" for s
      by (rule Suc.IH(1))
    define base where "base = remove_spaces (strip pytype)"
    show ?case
    proof (cases "isdigit base")
      case True
      then show ?thesis
        by (subst map_type.simps, subst map_type_limited.simps) (simp add: base_def)
    next
      case nd: False
      show ?thesis
      proof (cases "re_match generic_re base")
        case None
        with nd show ?thesis
          by (simp add: map_type_bare map_type_limited_bare base_def)
      next
        case sm: (Some mm)
        from generic_re_groups [OF sm] obtain typename args_str
          where g1: "mm 1 = Some typename" and g2: "mm 2 = Some args_str" by blast
        define args where "args = map strip (split_on CHR '','' args_str)"
        note lim = map_type_limited_generic [OF nd [unfolded base_def] sm [unfolded base_def] g1 g2,
            of depth ctm gen_allow, folded args_def base_def]
        from map_type_returns(2) obtain substituted d1 where
          tc: "try_custom_template ctm gen_allow typename args = Inr (substituted, d1)" by blast
        note unl = map_type_generic [OF nd [unfolded base_def] sm [unfolded base_def] g1 g2
            tc [unfolded args_def], folded args_def base_def]
        from t [of typename args] show ?thesis
        proof
          assume "try_custom_template_limited depth ctm gen_allow typename args = Inl RecursionError"
          then show ?thesis by (simp add: lim)
        next
          assume "try_custom_template_limited depth ctm gen_allow typename args =
                  try_custom_template ctm gen_allow typename args"
          with tc have tl: "try_custom_template_limited depth ctm gen_allow typename args =
                  Inr (substituted, d1)" by simp
          note lim = lim [unfolded tl sum.case prod.case]
          show ?thesis
          proof (cases "truthy substituted")
            case (Some sub)
            then show ?thesis by (simp add: lim unl)
          next
            case None
            show ?thesis
            proof (cases "typename = ''tuple''")
              case True
              from g [of args] None True show ?thesis
                by (auto simp: lim unl)
            next
              case nt: False
              show ?thesis
              proof (cases "typename \<in> set [''tuple'', ''set'', ''list'', ''dict''] \<or> gen_allow")
                case True
                show ?thesis
                proof (cases args)
                  case Nil
                  with None nt True show ?thesis by (simp add: lim unl)
                next
                  case (Cons a as)
                  from m [of "unwrap_literal a"] None nt True Cons show ?thesis
                    by (auto simp: lim unl)
                qed
              next
                case False
                show ?thesis unfolding lim unl using None nt False by (simp split: prod.splits)
              qed
            qed
          qed
        qed
      qed
    qed
  next
    case 2
    show ?case
    proof (cases "ctm name")
      case None
      then show ?thesis by (subst try_custom_template.simps) simp
    next
      case (Some entry)
      obtain template param_keys where e: "entry = (template, param_keys)" by (cases entry)
      have "collect (map (\<lambda>(key, val).
                keyed key (map_type_limited depth ctm gen_allow (unwrap_literal (strip val))))
              (zip param_keys args)) = Inl RecursionError \<or>
            collect (map (\<lambda>(key, val).
                keyed key (map_type_limited depth ctm gen_allow (unwrap_literal (strip val))))
              (zip param_keys args)) =
            collect (map (\<lambda>(key, val).
                keyed key (map_type ctm gen_allow (unwrap_literal (strip val))))
              (zip param_keys args))"
      proof (rule collect_limited)
        fix kv :: "string \<times> string"
        obtain key val where p: "kv = (key, val)" by (cases kv)
        from Suc.IH(1) [of "unwrap_literal (strip val)"]
        show "(case kv of (key, val) \<Rightarrow>
                keyed key (map_type_limited depth ctm gen_allow (unwrap_literal (strip val)))) =
              Inl RecursionError \<or>
              (case kv of (key, val) \<Rightarrow>
                keyed key (map_type_limited depth ctm gen_allow (unwrap_literal (strip val)))) =
              (case kv of (key, val) \<Rightarrow>
                keyed key (map_type ctm gen_allow (unwrap_literal (strip val))))"
          by (auto simp: p keyed_def)
      qed
      with Some e show ?thesis
        by (subst try_custom_template.simps) (auto split: sum.splits prod.splits)
    qed
  next
    case 3
    have "collect (map (map_type_limited depth ctm gen_allow) args) = Inl RecursionError \<or>
          collect (map (map_type_limited depth ctm gen_allow) args) =
          collect (map (map_type ctm gen_allow) args)"
      by (rule collect_limited) (rule Suc.IH(1))
    then show ?case by simp
  }
qed

lemma limited_enough:
  "2 * length pytype < depth \<Longrightarrow>
     map_type_limited depth ctm gen_allow pytype = map_type ctm gen_allow pytype"
  "2 * sum_list (map length args) + 1 < depth \<Longrightarrow>
     try_custom_template_limited depth ctm gen_allow name args =
       try_custom_template ctm gen_allow name args"
  "args \<noteq> [] \<Longrightarrow> (\<And>a. a \<in> set args \<Longrightarrow> 2 * length a + 1 < depth) \<Longrightarrow>
     tuple_items_limited depth ctm gen_allow args = collect (map (map_type ctm gen_allow) args)"
proof (induction depth arbitrary: pytype name args)
  case 0
  {
    case 1 then show ?case by simp
  next
    case 2 then show ?case by simp
  next
    case 3
    from "3.prems"(1) obtain a where "a \<in> set args" by (cases args) auto
    from "3.prems"(2) [OF this] show ?case by simp
  }
next
  case (Suc depth)
  {
    case 1
    define base where "base = remove_spaces (strip pytype)"
    show ?case
    proof (cases "isdigit base")
      case True
      then show ?thesis
        by (subst map_type.simps, subst map_type_limited.simps) (simp add: base_def)
    next
      case nd: False
      show ?thesis
      proof (cases "re_match generic_re base")
        case None
        with nd show ?thesis
          by (simp add: map_type_bare map_type_limited_bare base_def)
      next
        case sm: (Some mm)
        from generic_re_groups [OF sm] obtain typename args_str
          where g1: "mm 1 = Some typename" and g2: "mm 2 = Some args_str" by blast
        define args where "args = map strip (split_on CHR '','' args_str)"
        from generic_args_shorter [OF sm [unfolded base_def] g2, of "CHR '',''"]
        have sh: "sum_list (map length args) < length pytype" by (simp add: args_def)
        have mem: "length a \<le> sum_list (map length args)" if "a \<in> set args" for a
          using that member_le_sum_list [of "length a" "map length args"] by auto
        note lim = map_type_limited_generic [OF nd [unfolded base_def] sm [unfolded base_def] g1 g2,
            of depth ctm gen_allow, folded args_def base_def]
        from map_type_returns(2) obtain substituted d1 where
          tc: "try_custom_template ctm gen_allow typename args = Inr (substituted, d1)" by blast
        note unl = map_type_generic [OF nd [unfolded base_def] sm [unfolded base_def] g1 g2
            tc [unfolded args_def], folded args_def base_def]
        from sh "1.prems" have "2 * sum_list (map length args) + 1 < depth" by simp
        from Suc.IH(2) [OF this] tc
        have tl: "try_custom_template_limited depth ctm gen_allow typename args =
                  Inr (substituted, d1)" by simp
        note lim = lim [unfolded tl sum.case prod.case]
        have g: "tuple_items_limited depth ctm gen_allow args =
                 collect (map (map_type ctm gen_allow) args)"
        proof (rule Suc.IH(3))
          show "args \<noteq> []" by (simp add: args_def split_on_not_Nil)
        next
          fix a assume "a \<in> set args"
          from mem [OF this] sh "1.prems" show "2 * length a + 1 < depth" by simp
        qed
        have m: "map_type_limited depth ctm gen_allow (unwrap_literal a) =
                 map_type ctm gen_allow (unwrap_literal a)" if "a \<in> set args" for a
        proof (rule Suc.IH(1))
          from mem [OF that] sh "1.prems" length_unwrap_literal_le [of a]
          show "2 * length (unwrap_literal a) < depth" by simp
        qed
        from split_on_not_Nil obtain a as where a: "args = a # as"
          by (cases args) (auto simp: args_def)
        from m [of a] a have ma: "map_type_limited depth ctm gen_allow (unwrap_literal a) =
                 map_type ctm gen_allow (unwrap_literal a)" by simp
        show ?thesis
          apply (simp only: lim unl g)
          apply (simp only: a list.case ma)
          done
      qed
    qed
  next
    case 2
    show ?case
    proof (cases "ctm name")
      case None
      then show ?thesis by (subst try_custom_template.simps) simp
    next
      case (Some entry)
      obtain template param_keys where e: "entry = (template, param_keys)" by (cases entry)
      have "collect (map (\<lambda>(key, val).
                keyed key (map_type_limited depth ctm gen_allow (unwrap_literal (strip val))))
              (zip param_keys args)) =
            collect (map (\<lambda>(key, val).
                keyed key (map_type ctm gen_allow (unwrap_literal (strip val))))
              (zip param_keys args))"
      proof (rule collect_cong_on)
        fix kv :: "string \<times> string"
        assume kv: "kv \<in> set (zip param_keys args)"
        obtain key val where p: "kv = (key, val)" by (cases kv)
        from kv p have "val \<in> set args" by (auto dest: set_zip_rightD)
        then have "length val \<le> sum_list (map length args)"
          using member_le_sum_list [of "length val" "map length args"] by auto
        with length_unwrap_literal_le [of "strip val"] length_strip_le [of val] "2.prems"
        have "2 * length (unwrap_literal (strip val)) < depth" by simp
        from Suc.IH(1) [OF this]
        show "(case kv of (key, val) \<Rightarrow>
                keyed key (map_type_limited depth ctm gen_allow (unwrap_literal (strip val)))) =
              (case kv of (key, val) \<Rightarrow>
                keyed key (map_type ctm gen_allow (unwrap_literal (strip val))))"
          by (simp add: p)
      qed
      with Some e show ?thesis
        by (subst try_custom_template.simps) simp
    qed
  next
    case 3
    have "collect (map (map_type_limited depth ctm gen_allow) args) =
          collect (map (map_type ctm gen_allow) args)"
    proof (rule collect_cong_on)
      fix a assume "a \<in> set args"
      from "3.prems"(2) [OF this] have "2 * length a < depth" by simp
      then show "map_type_limited depth ctm gen_allow a = map_type ctm gen_allow a"
        by (rule Suc.IH(1))
    qed
    then show ?case by simp
  }
qed

abbreviation nested_list :: "nat \<Rightarrow> string" where
  "nested_list k \<equiv> concat (replicate k ''list['') @ ''int'' @ replicate k CHR '']''"

lemma split_on_absent: "c \<notin> set s \<Longrightarrow> split_on c s = [s]"
  by (induction s) auto

lemma nested_list_Suc: "nested_list (Suc k) = ''list['' @ nested_list k @ '']''"
proof -
  have "replicate (Suc k) CHR '']'' = replicate k CHR '']'' @ '']''"
    by (simp add: replicate_append_same)
  then show ?thesis by simp
qed

lemma nested_list_chars: "set (nested_list k) \<subseteq> set ''list[int]''"
  by (induction k) auto

lemma startswith_hd: "startswith s (x # p) \<Longrightarrow> hd s = x"
  by (cases s) (auto simp: startswith_def)

lemma plain_text:
  assumes "set s \<subseteq> set ''list[int]''" and "hd s = CHR ''l'' \<or> hd s = CHR ''i''"
  shows "strip s = s" "remove_spaces s = s" "unwrap_literal s = s" "\<not> isdigit s"
    "split_on CHR '','' s = [s]" "LF \<notin> set s"
proof -
  have c: "c \<in> set ''list[int]''" if "c \<in> set s" for c
    using assms(1) that by blast
  have ns: "\<forall>c \<in> set s. \<not> py_isspace c"
  proof
    fix c assume "c \<in> set s"
    from c [OF this] show "\<not> py_isspace c" by (auto simp: py_isspace_def)
  qed
  then show "strip s = s" by (rule strip_no_space)
  have "\<forall>c \<in> set s. c \<noteq> CHR '' ''"
  proof
    fix c assume "c \<in> set s"
    from c [OF this] show "c \<noteq> CHR '' ''" by auto
  qed
  then show "remove_spaces s = s" by (simp add: remove_spaces_def)
  have "\<not> startswith s ''Literal[''"
  proof
    assume "startswith s ''Literal[''"
    then have "hd s = CHR ''L''" by (rule startswith_hd)
    with assms(2) show False by simp
  qed
  then show "unwrap_literal s = s"
    by (subst unwrap_literal.simps) simp
  show "\<not> isdigit s"
  proof
    assume "isdigit s"
    then have "py_isdigit_char (hd s)" by (cases s) (auto simp: isdigit_def)
    with assms(2) show False by (auto simp: py_isdigit_char_def)
  qed
  have "CHR '','' \<notin> set s"
  proof
    assume "CHR '','' \<in> set s"
    from c [OF this] show False by simp
  qed
  then show "split_on CHR '','' s = [s]" by (rule split_on_absent)
  show "LF \<notin> set s"
  proof
    assume "LF \<in> set s"
    from c [OF this] show False by (simp add: LF_def)
  qed
qed

lemma nested_list_hd: "hd (nested_list k) = CHR ''l'' \<or> hd (nested_list k) = CHR ''i''"
  by (cases k) auto

lemmas nested_list_plain = plain_text [OF nested_list_chars nested_list_hd]

lemma nested_list_overflows:
  "depth \<le> k \<Longrightarrow> map_type_limited depth ctm gen_allow (nested_list k) = Inl RecursionError"
proof (induction depth arbitrary: k rule: less_induct)
  case (less depth)
  show ?case
  proof (cases depth)
    case 0
    then show ?thesis by simp
  next
    case (Suc d)
    with less.prems obtain k0 where k: "k = Suc k0" and dk: "d \<le> k0" by (cases k) auto
    have id: "is_identifier ''list''"
      by (simp add: is_identifier_def ident_start_def ident_char_def)
    define x where "x = nested_list k0"
    define y where "y = ''list'' @ ''['' @ x @ '']''"
    have s: "nested_list k = y" unfolding k y_def x_def nested_list_Suc by simp
    note px = nested_list_plain [of k0, folded x_def]
    note py = nested_list_plain [of k, unfolded s]
    from generic_re_matches [OF id px(6)] obtain m where
      m: "re_match generic_re y = Some m" "m 1 = Some ''list''" "m 2 = Some x"
      unfolding y_def by blast
    have n: "\<not> isdigit (remove_spaces (strip y))"
      "re_match generic_re (remove_spaces (strip y)) = Some m"
      using py(1,2,4) m(1) by simp_all
    have a: "map strip (split_on CHR '','' x) = [x]"
      using px(1,5) by simp
    have IH: "map_type_limited e ctm gen_allow x = Inl RecursionError" if "e \<le> d" for e
      unfolding x_def using that Suc dk by (intro less.IH) simp_all
    have t: "try_custom_template_limited d ctm gen_allow ''list'' [x] = Inl RecursionError \<or>
             (\<exists>d1. try_custom_template_limited d ctm gen_allow ''list'' [x] = Inr (None, d1))"
    proof (cases d)
      case 0
      then show ?thesis by simp
    next
      case d: (Suc d1)
      then have "map_type_limited d1 ctm gen_allow x = Inl RecursionError"
        by (intro IH) simp
      then show ?thesis
        unfolding d
        by (auto simp: keyed_def px length_Suc_conv split: option.splits)
    qed
    have "map_type_limited (Suc d) ctm gen_allow y = Inl RecursionError"
      apply (subst map_type_limited_generic [OF n m(2,3)])
      apply (simp only: a)
      using t IH [of d]
      apply (auto simp: truthy_def px)
      done
    then show ?thesis unfolding Suc s .
  qed
qed

lemma bare_lookup_fallback:
  assumes "ctm base = None" and "re_match outer_re (unwrap_literal base) = None"
  shows "bare_lookup ctm pytype base = (''object'', [Unrecognized pytype])"
  using assms by (simp add: bare_lookup_def py_or_def truthy_def)

lemma map_type_unregistered_generic:
  assumes "\<not> isdigit (remove_spaces (strip pytype))"
    and "re_match generic_re (remove_spaces (strip pytype)) = Some m"
    and "m 1 = Some typename" and "m 2 = Some args_str"
    and "\<And>template param_keys. ctm typename = Some (template, param_keys) \<Longrightarrow>
           length param_keys \<noteq> length (split_on CHR '','' args_str)"
    and "typename \<notin> set [''tuple'', ''set'', ''list'', ''dict'']" and "\<not> gen_allow"
    and "ctm (remove_spaces (strip pytype)) = None"
    and "re_match outer_re (unwrap_literal (remove_spaces (strip pytype))) = None"
  shows "map_type ctm gen_allow pytype =
           Inr (''object'', (if ctm typename = None then [] else [ParamMismatch typename]) @
                            [Unrecognized pytype])"
proof -
  have t: "try_custom_template ctm gen_allow typename (map strip (split_on CHR '','' args_str)) =
        Inr (None, if ctm typename = None then [] else [ParamMismatch typename])"
  proof (cases "ctm typename")
    case None
    then show ?thesis by (subst try_custom_template.simps) simp
  next
    case (Some entry)
    obtain template param_keys where e: "entry = (template, param_keys)" by (cases entry)
    from assms(5) [OF Some [unfolded e]] Some e show ?thesis
      by (subst try_custom_template.simps) simp
  qed
  show ?thesis
    unfolding map_type_generic [OF assms(1-4) t]
    using assms(6,7) bare_lookup_fallback [where pytype = pytype and ctm = ctm and base = "remove_spaces (strip pytype)", OF assms(8) assms(9)]
    by (simp add: truthy_def)
qed

section \<open>The claims\<close>

text \<open>
  C1 (as amended). \<open>map_type\<close> run with \<open>depth\<close> frames left either raises
  \<open>RecursionError\<close> or returns a string, the one the engine returns on an unbounded
  stack: the index into the argument list and the reads of the two groups are branches
  of the model, and none is taken, whatever the registry and the passthrough flag. It
  returns whenever \<open>depth\<close> exceeds twice the length of the text (every nested call is
  on a shorter text and costs at most two frames). When nothing maps the text (it is not
  a number; it has no generic shape, or its generic name is no container, the
  passthrough flag is off and no rule with that many parameters is registered for it;
  it is no registered name and yields no dotted identifier), the result is the fallback
  token \<open>object\<close> with the diagnostic, after the mismatch diagnostic if there is one. For
  every \<open>depth\<close> there is a text nested deeply enough to raise \<open>RecursionError\<close>.
\<close>

theorem map_type_returns_within_limit:
  "(map_type_limited depth ctm gen_allow pytype = Inl RecursionError \<or>
    (\<exists>r d. map_type_limited depth ctm gen_allow pytype = Inr (r, d) \<and>
           map_type ctm gen_allow pytype = Inr (r, d))) \<and>
   (2 * length pytype < depth \<longrightarrow>
      (\<exists>r d. map_type_limited depth ctm gen_allow pytype = Inr (r, d))) \<and>
   (\<not> isdigit (remove_spaces (strip pytype)) \<and>
    ctm (remove_spaces (strip pytype)) = None \<and>
    re_match outer_re (unwrap_literal (remove_spaces (strip pytype))) = None \<longrightarrow>
      (re_match generic_re (remove_spaces (strip pytype)) = None \<longrightarrow>
         map_type ctm gen_allow pytype = Inr (''object'', [Unrecognized pytype])) \<and>
      (re_match generic_re (remove_spaces (strip pytype)) = Some m \<and>
       m 1 = Some typename \<and> m 2 = Some args_str \<and>
       typename \<notin> set [''tuple'', ''set'', ''list'', ''dict''] \<and> \<not> gen_allow \<and>
       (\<forall>template param_keys. ctm typename = Some (template, param_keys) \<longrightarrow>
          length param_keys \<noteq> length (split_on CHR '','' args_str)) \<longrightarrow>
         map_type ctm gen_allow pytype =
           Inr (''object'', (if ctm typename = None then [] else [ParamMismatch typename]) @
                            [Unrecognized pytype]))) \<and>
   map_type_limited depth ctm gen_allow
     (concat (replicate depth ''list['') @ ''int'' @ replicate depth CHR '']'') =
     Inl RecursionError"
proof (intro conjI impI)
  from map_type_returns(1) obtain r d where "map_type ctm gen_allow pytype = Inr (r, d)"
    by blast
  with limited_simulates(1) [of depth ctm gen_allow pytype]
  show "map_type_limited depth ctm gen_allow pytype = Inl RecursionError \<or>
    (\<exists>r d. map_type_limited depth ctm gen_allow pytype = Inr (r, d) \<and>
           map_type ctm gen_allow pytype = Inr (r, d))" by auto
next
  assume "2 * length pytype < depth"
  from limited_enough(1) [OF this] map_type_returns(1) [of ctm gen_allow pytype]
  show "\<exists>r d. map_type_limited depth ctm gen_allow pytype = Inr (r, d)" by simp
next
  assume "\<not> isdigit (remove_spaces (strip pytype)) \<and>
    ctm (remove_spaces (strip pytype)) = None \<and>
    re_match outer_re (unwrap_literal (remove_spaces (strip pytype))) = None"
    and "re_match generic_re (remove_spaces (strip pytype)) = None"
  then show "map_type ctm gen_allow pytype = Inr (''object'', [Unrecognized pytype])"
    by (simp add: map_type_bare bare_lookup_fallback)
next
  assume a: "\<not> isdigit (remove_spaces (strip pytype)) \<and>
    ctm (remove_spaces (strip pytype)) = None \<and>
    re_match outer_re (unwrap_literal (remove_spaces (strip pytype))) = None"
    and b: "re_match generic_re (remove_spaces (strip pytype)) = Some m \<and>
       m 1 = Some typename \<and> m 2 = Some args_str \<and>
       typename \<notin> set [''tuple'', ''set'', ''list'', ''dict''] \<and> \<not> gen_allow \<and>
       (\<forall>template param_keys. ctm typename = Some (template, param_keys) \<longrightarrow>
          length param_keys \<noteq> length (split_on CHR '','' args_str))"
  show "map_type ctm gen_allow pytype =
           Inr (''object'', (if ctm typename = None then [] else [ParamMismatch typename]) @
                            [Unrecognized pytype])"
    by (rule map_type_unregistered_generic [where m = m and args_str = args_str])
      (use a b in blast)+
next
  show "map_type_limited depth ctm gen_allow
     (concat (replicate depth ''list['') @ ''int'' @ replicate depth CHR '']'') =
     Inl RecursionError"
    by (rule nested_list_overflows) simp
qed

theorem map_type_returns_within_limit_witness:
  "map_type_limited 20 Map.empty False ''Foo[int]'' =
     Inr (''object'', [Unrecognized ''Foo[int]'']) \<and>
   map_type_limited 20 Map.empty False ''a[b'' = Inr (''object'', [Unrecognized ''a[b'']) \<and>
   map_type_limited 20 Map.empty False [] = Inr (''object'', [Unrecognized []]) \<and>
   map_type_limited 3 Map.empty False ''list[list[list[int]]]'' = Inl RecursionError"
proof -
  have id: "is_identifier ''Foo''" "LF \<notin> set ''int''"
    by (simp_all add: is_identifier_def ident_start_def ident_char_def LF_def)
  from generic_re_matches [OF id] obtain m where
    m: "re_match generic_re ''Foo[int]'' = Some m" "m 1 = Some ''Foo''" "m 2 = Some ''int''"
    by auto
  have n: "remove_spaces (strip ''Foo[int]'') = ''Foo[int]''" "\<not> isdigit ''Foo[int]''"
    "re_match outer_re (unwrap_literal ''Foo[int]'') = None"
    "remove_spaces (strip ''a[b'') = ''a[b''" "\<not> isdigit ''a[b''"
    "re_match generic_re ''a[b'' = None" "re_match outer_re (unwrap_literal ''a[b'') = None"
    "remove_spaces (strip []) = []" "\<not> isdigit []"
    "re_match generic_re [] = None" "re_match outer_re (unwrap_literal []) = None"
    by code_simp+
  note foo = map_type_returns_within_limit [where depth = 20 and ctm = Map.empty
      and gen_allow = False and pytype = "''Foo[int]''" and m = m and typename = "''Foo''"
      and args_str = "''int''"]
  note ab = map_type_returns_within_limit [where depth = 20 and ctm = Map.empty
      and gen_allow = False and pytype = "''a[b''"]
  note em = map_type_returns_within_limit [where depth = 20 and ctm = Map.empty
      and gen_allow = False and pytype = "[]"]
  note deep = map_type_returns_within_limit [where depth = 3 and ctm = Map.empty
      and gen_allow = False]
  have 1: "map_type_limited 20 Map.empty False ''Foo[int]'' =
     Inr (''object'', [Unrecognized ''Foo[int]''])"
    using foo m n by auto
  have 2: "map_type_limited 20 Map.empty False ''a[b'' = Inr (''object'', [Unrecognized ''a[b''])"
    using ab n by auto
  have 3: "map_type_limited 20 Map.empty False [] = Inr (''object'', [Unrecognized []])"
    using em n by auto
  have 4: "map_type_limited 3 Map.empty False ''list[list[list[int]]]'' = Inl RecursionError"
    using deep by (simp add: eval_nat_numeral)
  from 1 2 3 4 show ?thesis by blast
qed

text \<open>
  The claim as stated fails: with the interpreter's default of 1000 frames, the text of
  1000 nested \<open>list[...]\<close> around \<open>int\<close> raises \<open>RecursionError\<close>.
\<close>

theorem deep_nesting_counterexample:
  "map_type_limited 1000 Map.empty False
     (concat (replicate 1000 ''list['') @ ''int'' @ replicate 1000 CHR '']'') =
   Inl RecursionError"
  by (rule nested_list_overflows) simp




text \<open>
  C6. A source with no whole-file marker in its first three lines, no one-shot marker and
  no region-begin marker, converted without the external force flag, comes out as its
  lines joined by line feeds: no line is rewritten, none is merged, and nothing is
  reported. (Region-end markers need not be excluded.)
\<close>

theorem no_marker_converts_nothing:
  assumes "\<not> force_global"
    and "\<not> file_level_enabled (splitlines source)"
    and "\<forall>l \<in> set (splitlines source). \<not> one_shot_marker l \<and> \<not> region_begin l"
  shows "convert_typing_to_cython ctm gen_allow source force_global =
           Inr (join [LF] (splitlines source), [])"
proof -
  have "loop ctm gen_allow (force_global \<or> file_level_enabled (splitlines source))
          (splitlines source) initial =
        Inr (initial\<lparr>result := result initial @ drop (cur_i initial) (splitlines source),
               cur_i := length (splitlines source)\<rparr>)"
    using assms by (intro loop_idle) (simp_all add: initial_def)
  then show ?thesis
    by (simp add: convert_typing_to_cython_def Let_def initial_def)
qed

theorem no_marker_converts_nothing_witness:
  "convert_typing_to_cython Map.empty False (''x: int'' @ [LF] @ ''def f(a: int):'') False =
     Inr (''x: int'' @ [LF] @ ''def f(a: int):'', [])"
proof -
  let ?src = "''x: int'' @ [LF] @ ''def f(a: int):''"
  have 1: "\<not> file_level_enabled (splitlines ?src)" by code_simp
  have "list_all (\<lambda>l. \<not> one_shot_marker l \<and> \<not> region_begin l) (splitlines ?src)"
    by code_simp
  then have 2: "\<forall>l \<in> set (splitlines ?src). \<not> one_shot_marker l \<and> \<not> region_begin l"
    by (simp add: list_all_iff)
  have 0: "\<not> False" by simp
  have j: "join [LF] (splitlines ?src) = ?src" by code_simp
  from no_marker_converts_nothing [OF 0 1 2, of Map.empty False] show ?thesis
    unfolding j .
qed

text \<open>
  C7. When the declaration pattern does not match, \<open>convert_variable_declaration\<close> returns
  its input with no diagnostic, and so does \<open>convert_function_definition\<close> when the header
  pattern does not match. In the scan, a line in conversion mode that fails the annotation
  test or the declaration pattern is emitted unchanged, and a collected header that fails
  the header pattern is emitted as the merged text, unchanged; neither is an error.
\<close>

theorem unmatched_text_passes_unchanged:
  "(re_match var_decl_re line = None \<longrightarrow>
      convert_variable_declaration ctm gen_allow line = Inr (line, [])) \<and>
   (re_match func_def_re merged = None \<longrightarrow>
      convert_function_definition ctm gen_allow merged = Inr (merged, [])) \<and>
   (\<not> one_shot_marker (lines ! cur_i st) \<and> \<not> region_begin (lines ! cur_i st) \<and>
    \<not> region_end (lines ! cur_i st) \<and> \<not> startswith (strip (lines ! cur_i st)) ''@'' \<and>
    \<not> startswith (strip (lines ! cur_i st)) ''def '' \<and>
    (re_match annotation_re (lines ! cur_i st) = None \<or>
     re_match var_decl_re (lines ! cur_i st) = None) \<longrightarrow>
      step ctm gen_allow file_wide lines st =
        Inr (emit (st\<lparr>next_line_compiled := False\<rparr>) (lines ! cur_i st) (cur_i st + 1))) \<and>
   (\<not> one_shot_marker (lines ! cur_i st) \<and> \<not> region_begin (lines ! cur_i st) \<and>
    \<not> region_end (lines ! cur_i st) \<and> \<not> startswith (strip (lines ! cur_i st)) ''@'' \<and>
    startswith (strip (lines ! cur_i st)) ''def '' \<and>
    (file_wide \<or> in_block st \<or> next_line_compiled st) \<and>
    collect_header lines (cur_i st) (lines ! cur_i st) [lines ! cur_i st] = (j, func_block) \<and>
    re_match func_def_re (join '' '' func_block) = None \<longrightarrow>
      step ctm gen_allow file_wide lines st =
        Inr (emit (st\<lparr>next_line_compiled := False\<rparr>) (join '' '' func_block) (j + 1)))"
proof (intro conjI impI)
  assume "re_match var_decl_re line = None"
  then show "convert_variable_declaration ctm gen_allow line = Inr (line, [])"
    by (simp add: convert_variable_declaration_def)
next
  assume "re_match func_def_re merged = None"
  then show "convert_function_definition ctm gen_allow merged = Inr (merged, [])"
    by (simp add: convert_function_definition_def)
next
  assume "\<not> one_shot_marker (lines ! cur_i st) \<and> \<not> region_begin (lines ! cur_i st) \<and>
    \<not> region_end (lines ! cur_i st) \<and> \<not> startswith (strip (lines ! cur_i st)) ''@'' \<and>
    \<not> startswith (strip (lines ! cur_i st)) ''def '' \<and>
    (re_match annotation_re (lines ! cur_i st) = None \<or>
     re_match var_decl_re (lines ! cur_i st) = None)"
  then show "step ctm gen_allow file_wide lines st =
        Inr (emit (st\<lparr>next_line_compiled := False\<rparr>) (lines ! cur_i st) (cur_i st + 1))"
    unfolding step_def Let_def one_shot_marker_def region_begin_def region_end_def
    by (auto simp: convert_variable_declaration_def)
next
  assume "\<not> one_shot_marker (lines ! cur_i st) \<and> \<not> region_begin (lines ! cur_i st) \<and>
    \<not> region_end (lines ! cur_i st) \<and> \<not> startswith (strip (lines ! cur_i st)) ''@'' \<and>
    startswith (strip (lines ! cur_i st)) ''def '' \<and>
    (file_wide \<or> in_block st \<or> next_line_compiled st) \<and>
    collect_header lines (cur_i st) (lines ! cur_i st) [lines ! cur_i st] = (j, func_block) \<and>
    re_match func_def_re (join '' '' func_block) = None"
  then show "step ctm gen_allow file_wide lines st =
        Inr (emit (st\<lparr>next_line_compiled := False\<rparr>) (join '' '' func_block) (j + 1))"
    unfolding step_def Let_def one_shot_marker_def region_begin_def region_end_def
    by (auto simp: convert_function_definition_def)
qed

theorem unmatched_text_passes_unchanged_witness:
  "convert_variable_declaration Map.empty False ''x: int(3)'' = Inr (''x: int(3)'', []) \<and>
   convert_function_definition Map.empty False ''def f(x) -> 3:'' = Inr (''def f(x) -> 3:'', []) \<and>
   step Map.empty False True [''x: int(3)''] initial =
     Inr (emit (initial\<lparr>next_line_compiled := False\<rparr>) ''x: int(3)'' 1) \<and>
   step Map.empty False True [''def f(x) -> 3:''] initial =
     Inr (emit (initial\<lparr>next_line_compiled := False\<rparr>) ''def f(x) -> 3:'' 1)"
proof -
  have v: "re_match var_decl_re ''x: int(3)'' = None" by code_simp
  have f: "re_match func_def_re ''def f(x) -> 3:'' = None" by code_simp
  have i: "cur_i initial = 0" "\<not> in_block initial" "\<not> next_line_compiled initial"
    by (simp_all add: initial_def)
  have a: "\<not> one_shot_marker ''x: int(3)''" "\<not> region_begin ''x: int(3)''"
    "\<not> region_end ''x: int(3)''" "\<not> startswith (strip ''x: int(3)'') ''@''"
    "\<not> startswith (strip ''x: int(3)'') ''def ''"
    by code_simp+
  have b: "\<not> one_shot_marker ''def f(x) -> 3:''" "\<not> region_begin ''def f(x) -> 3:''"
    "\<not> region_end ''def f(x) -> 3:''" "\<not> startswith (strip ''def f(x) -> 3:'') ''@''"
    "startswith (strip ''def f(x) -> 3:'') ''def ''"
    by code_simp+
  have c: "collect_header [''def f(x) -> 3:''] 0 ''def f(x) -> 3:'' [''def f(x) -> 3:''] =
      (0, [''def f(x) -> 3:''])"
    by code_simp
  from unmatched_text_passes_unchanged
    [where line = "''x: int(3)''" and ctm = Map.empty and gen_allow = False
      and merged = "''def f(x) -> 3:''" and lines = "[''x: int(3)'']" and st = initial
      and file_wide = True and j = 0 and func_block = "[]"]
    v f i a
  have 1: "convert_variable_declaration Map.empty False ''x: int(3)'' = Inr (''x: int(3)'', [])"
    and 2: "convert_function_definition Map.empty False ''def f(x) -> 3:'' =
      Inr (''def f(x) -> 3:'', [])"
    and 3: "step Map.empty False True [''x: int(3)''] initial =
      Inr (emit (initial\<lparr>next_line_compiled := False\<rparr>) ''x: int(3)'' 1)"
    by simp_all
  from unmatched_text_passes_unchanged
    [where line = "''x: int(3)''" and ctm = Map.empty and gen_allow = False
      and merged = "''def f(x) -> 3:''" and lines = "[''def f(x) -> 3:'']" and st = initial
      and file_wide = True and j = 0 and func_block = "[''def f(x) -> 3:'']"]
    f i b c
  have 4: "step Map.empty False True [''def f(x) -> 3:''] initial =
      Inr (emit (initial\<lparr>next_line_compiled := False\<rparr>) ''def f(x) -> 3:'' 1)"
    by simp
  from 1 2 3 4 show ?thesis by simp
qed




text \<open>
  C8 (as amended). For every line that matches the declaration pattern, the groups are
  pieces of the line in order (indent, name, colon between optional blanks, type text,
  initializer, comment), and the output is exactly
  indent + \<open>cdef\<close> + space + map(type) + space + name + space + initializer + comment,
  where initializer and comment are the matched groups or empty: one space stands between
  the name and the initializer, and nothing else is inserted or dropped. The diagnostics
  are those of the mapping of the type.
\<close>

theorem variable_declaration_output:
  assumes "re_match var_decl_re line = Some m"
  shows "\<exists>indent var type_text ws1 ws2 rest typ d.
           m 1 = Some indent \<and> m 2 = Some var \<and> m 3 = Some type_text \<and>
           line = indent @ var @ ws1 @ '':'' @ ws2 @ type_text @
                  py_or (m 4) [] @ py_or (m 5) [] @ rest \<and>
           (rest = [] \<or> rest = [LF]) \<and>
           list_all py_isspace indent \<and> list_all py_isspace ws1 \<and> list_all py_isspace ws2 \<and>
           map_type ctm gen_allow type_text = Inr (typ, d) \<and>
           convert_variable_declaration ctm gen_allow line =
             Inr (indent @ ''cdef'' @ '' '' @ typ @ '' '' @ var @ '' '' @
                  py_or (m 4) [] @ py_or (m 5) [], d)"
proof -
  from re_match_SomeD [OF assms] obtain s' where
    "(m, s') \<in> set (rmatch var_decl_re (Map.empty, line))" ..
  from var_decl_re_in [OF this] obtain indent var ws1 ws2 type_text where
    g: "m 1 = Some indent" "m 2 = Some var" "m 3 = Some type_text"
    and l: "line = indent @ var @ ws1 @ '':'' @ ws2 @ type_text @
                  py_or (m 4) [] @ py_or (m 5) [] @ s'"
    and s: "s' = [] \<or> s' = [LF]"
    and w: "list_all py_isspace indent" "list_all py_isspace ws1" "list_all py_isspace ws2"
    by blast
  from map_type_returns(1) [of ctm gen_allow type_text]
  obtain ty d where t: "map_type ctm gen_allow type_text = Inr (ty, d)" by blast
  have "convert_variable_declaration ctm gen_allow line =
             Inr (indent @ ''cdef'' @ '' '' @ ty @ '' '' @ var @ '' '' @
                  py_or (m 4) [] @ py_or (m 5) [], d)"
    using assms g t by (simp add: convert_variable_declaration_def fmt_def)
  with g l s w t show ?thesis by blast
qed

theorem variable_declaration_output_witness:
  "convert_variable_declaration Map.empty False ''x: int = 5 # c'' =
     Inr (''cdef int x = 5 # c'', [])"
proof -
  have "match_groups var_decl_re ''x: int = 5 # c'' =
      Some [Some [], Some ''x'', Some ''int '', Some ''= 5 '', Some ''# c'']"
    by code_simp
  from match_groupsD [OF this] obtain m where
    m: "re_match var_decl_re ''x: int = 5 # c'' = Some m"
    and g: "m 1 = Some []" "m 2 = Some ''x''" "m 3 = Some ''int ''" "m 4 = Some ''= 5 ''"
      "m 5 = Some ''# c''"
    by blast
  have t: "map_type Map.empty False ''int '' = Inr (''int'', [])" by code_simp
  from variable_declaration_output [OF m, of Map.empty False] g t
  show ?thesis by (auto simp: py_or_Nil)
qed

text \<open>
  The claim as stated fails: it has no space after the name, and the code writes one, so
  a declaration with no initializer comes out with a trailing space.
\<close>

theorem variable_declaration_counterexample:
  "match_groups var_decl_re ''x: int'' = Some [Some [], Some ''x'', Some ''int'', None, None] \<and>
   map_type Map.empty False ''int'' = Inr (''int'', []) \<and>
   convert_variable_declaration Map.empty False ''x: int'' = Inr (''cdef int x '', []) \<and>
   ''cdef int x '' \<noteq> [] @ ''cdef'' @ '' '' @ ''int'' @ '' '' @ ''x'' @ [] @ []"
  by code_simp





text \<open>
  C3 (as amended). For every plain identifier that is neither a registered template name
  nor a key of the primitive type map, \<open>map_type\<close> returns the identifier itself and raises
  nothing. It reports no diagnostic, except for the identifier \<open>object\<close>, for which the
  result is the fallback token and the diagnostic is printed.
\<close>

theorem unknown_identifier_returned:
  assumes "is_identifier s" and "ctm s = None" and "TYPE_MAP s = None"
  shows "map_type ctm gen_allow s =
           Inr (s, if s = ''object'' then [Unrecognized s] else [])"
  using assms by (rule map_type_identifier)

theorem unknown_identifier_returned_witness:
  "map_type Map.empty False ''Foo'' = Inr (''Foo'', []) \<and>
   map_type Map.empty False ''object'' = Inr (''object'', [Unrecognized ''object''])"
proof -
  have a: "is_identifier ''Foo''" "TYPE_MAP ''Foo'' = None"
    "is_identifier ''object''" "TYPE_MAP ''object'' = None" "''Foo'' \<noteq> ''object''"
    by code_simp+
  from unknown_identifier_returned [of "''Foo''" Map.empty False]
    unknown_identifier_returned [of "''object''" Map.empty False] a
  show ?thesis by simp
qed

text \<open>
  The claim as stated fails: for the unknown identifier \<open>Foo\<close> nothing is reported.
\<close>

theorem unknown_identifier_counterexample:
  "is_identifier ''Foo'' \<and> TYPE_MAP ''Foo'' = None \<and>
   map_type Map.empty False ''Foo'' = Inr (''Foo'', [])"
  by code_simp

text \<open>
  C9 (as amended). A call of \<open>map_type\<close> prints the diagnostic for its own argument exactly
  when it returns \<open>object\<close> from its last lookup, that is, when the value returned is
  \<open>object\<close> and is not the text of a template (the diagnostics of the nested calls name
  shorter texts). In particular the primitive \<open>Any\<close>, unless it is registered as a
  template, gives \<open>object\<close> with the diagnostic, and an unknown identifier other than
  \<open>object\<close> is returned as it is with no diagnostic.
\<close>

theorem unrecognized_exactly_for_fallback:
  assumes "map_type ctm gen_allow pytype = Inr (r, d)"
  shows "(Unrecognized pytype \<in> set d \<longleftrightarrow>
            r = ''object'' \<and> \<not> template_result ctm gen_allow pytype) \<and>
         (ctm ''Any'' = None \<longrightarrow>
            map_type ctm gen_allow ''Any'' = Inr (''object'', [Unrecognized ''Any''])) \<and>
         (is_identifier pytype \<and> ctm pytype = None \<and> TYPE_MAP pytype = None \<and>
          pytype \<noteq> ''object'' \<longrightarrow> r = pytype \<and> d = [])"
proof (intro conjI impI)
  show "Unrecognized pytype \<in> set d \<longleftrightarrow>
          r = ''object'' \<and> \<not> template_result ctm gen_allow pytype"
    using assms by (rule unrecognized_iff)
next
  assume "ctm ''Any'' = None"
  then show "map_type ctm gen_allow ''Any'' = Inr (''object'', [Unrecognized ''Any''])"
    by (rule map_type_Any)
next
  assume a: "is_identifier pytype \<and> ctm pytype = None \<and> TYPE_MAP pytype = None \<and>
    pytype \<noteq> ''object''"
  with map_type_identifier [of pytype ctm gen_allow] assms show "r = pytype" by simp
  from a map_type_identifier [of pytype ctm gen_allow] assms show "d = []" by simp
qed

theorem unrecognized_exactly_for_fallback_witness:
  "\<not> template_result Map.empty False ''Any'' \<and>
   map_type Map.empty False ''Any'' = Inr (''object'', [Unrecognized ''Any'']) \<and>
   map_type Map.empty False ''Foo'' = Inr (''Foo'', [])"
proof -
  have any: "map_type Map.empty False ''Any'' = Inr (''object'', [Unrecognized ''Any''])"
    by code_simp
  have foo: "map_type Map.empty False ''Foo'' = Inr (''Foo'', [])"
    by code_simp
  have a: "is_identifier ''Foo''" "TYPE_MAP ''Foo'' = None" "''Foo'' \<noteq> ''object''"
    by code_simp+
  from unrecognized_exactly_for_fallback [OF any]
  have 1: "\<not> template_result Map.empty False ''Any''" by simp
  from unrecognized_exactly_for_fallback [OF any]
  have 2: "map_type Map.empty False ''Any'' = Inr (''object'', [Unrecognized ''Any''])" by simp
  from unrecognized_exactly_for_fallback [OF foo] a foo
  have 3: "map_type Map.empty False ''Foo'' = Inr (''Foo'', [])" by simp
  from 1 2 3 show ?thesis by simp
qed

text \<open>
  The claim as stated fails for a template whose text is \<open>object\<close>: the value returned
  equals \<open>object\<close> and no diagnostic is printed.
\<close>

theorem unrecognized_template_counterexample:
  "map_type [''Foo'' \<mapsto> (''object'', [])] False ''Foo'' = Inr (''object'', [])"
  by code_simp



end
